theory Spec2Isabelle
  imports Main "HOL-Library.Word" "HOL-Library.Char_ord"
begin

unbundle bit_operations_syntax

section \<open>The wallet tool (wallet-tool.cpp) as HOL functions\<close>

text \<open>
  The model follows \<^verbatim>\<open>class WalletTool\<close> and \<^verbatim>\<open>main\<close>. A C \<^verbatim>\<open>char\<close> is a
  \<^typ>\<open>8 word\<close>; a \<^verbatim>\<open>char*\<close> buffer is the function from an index to the byte stored
  there, so memory that was never written (\<^verbatim>\<open>malloc\<close>) is whatever function the caller
  supplies. The standard streams are the list of lines written to them. The scan cursor
  \<^verbatim>\<open>int i\<close> has 32 bits: an operation on it whose result is not a value of \<^verbatim>\<open>int\<close> is
  undefined behaviour, and a run that meets one has no result (\<open>None\<close>).
\<close>

type_synonym byte = "8 word"
type_synonym buffer = "nat \<Rightarrow> byte"

subsection \<open>tohex\<close>

definition hexdigit :: "nat \<Rightarrow> char" where
  "hexdigit d = ''0123456789abcdef'' ! d"

text \<open>What \<^verbatim>\<open>std::hex\<close> prints for a value: its digits in base 16, no leading zero.\<close>

function hex_of_nat :: "nat \<Rightarrow> string" where
  "hex_of_nat n =
     (if n < 16 then [hexdigit n] else hex_of_nat (n div 16) @ [hexdigit (n mod 16)])"
  by pat_completeness auto
termination
  by (relation "measure id") auto

declare hex_of_nat.simps [simp del]

text \<open>An \<^verbatim>\<open>int\<close> in hexadecimal is printed as the unsigned value of its 32 bits.\<close>

definition put_hex_int :: "int \<Rightarrow> string" where
  "put_hex_int v = hex_of_nat (nat (v mod 2 ^ 32))"

text \<open>\<^verbatim>\<open>std::setw(w) << std::setfill(c)\<close>: pad on the left up to width \<open>w\<close>.\<close>

definition setw_setfill :: "nat \<Rightarrow> char \<Rightarrow> string \<Rightarrow> string" where
  "setw_setfill w c s = replicate (w - length s) c @ s"

text \<open>
  The \<^verbatim>\<open>for\<close> loop of \<^verbatim>\<open>tohex\<close>; \<^verbatim>\<open>static_cast<int>(ptr[i])\<close> sign-extends the
  character (\<^const>\<open>sint\<close>) before the mask \<^verbatim>\<open>& 0xff\<close>.
\<close>

function tohex_loop :: "buffer \<Rightarrow> int \<Rightarrow> int \<Rightarrow> string \<Rightarrow> string" where
  "tohex_loop ptr len i ss =
     (if i < len
      then tohex_loop ptr len (i + 1)
             (ss @ setw_setfill 2 (CHR ''0'') (put_hex_int (sint (ptr (nat i)) AND 0xff)))
      else ss)"
  by pat_completeness auto
termination
  by (relation "measure (\<lambda>(ptr, len, i, ss). nat (len - i))") auto

declare tohex_loop.simps [simp del]

definition tohex :: "buffer \<Rightarrow> int \<Rightarrow> string" where
  "tohex ptr len = tohex_loop ptr len 0 []"

subsection \<open>The C stream of dumpAllKeys\<close>

text \<open>
  A \<^verbatim>\<open>FILE*\<close> opened with \<^verbatim>\<open>"rb"\<close>: the bytes of the file, the position and the
  end-of-file indicator. \<^verbatim>\<open>fread(buf, 1, n, f)\<close> copies the bytes that are there, at most
  \<open>n\<close>, into the front of \<open>buf\<close>, advances by that many and sets the indicator when it
  got fewer than asked. \<^verbatim>\<open>fseek(f, off, SEEK_SET)\<close> with a negative offset fails and
  leaves the stream as it is (the source never looks at its result); otherwise it moves
  the position and clears the indicator. In \<^verbatim>\<open>dumpAllKeys\<close> every \<^verbatim>\<open>fread\<close> comes after a
  read that got all it asked for or after a seek that succeeded, so none is made with the
  indicator set.
\<close>

record FILE =
  contents :: "byte list"
  pos :: nat
  eof :: bool

definition fread :: "buffer \<Rightarrow> nat \<Rightarrow> FILE \<Rightarrow> nat \<times> buffer \<times> FILE" where
  "fread buf n f =
     (let got = take n (drop (pos f) (contents f));
          k = length got
      in (k, (\<lambda>j. if j < k then got ! j else buf j),
          f\<lparr>pos := pos f + k, eof := eof f \<or> k < n\<rparr>))"

definition fseek_set :: "FILE \<Rightarrow> int \<Rightarrow> FILE" where
  "fseek_set f off = (if off < 0 then f else f\<lparr>pos := nat off, eof := False\<rparr>)"

definition feof :: "FILE \<Rightarrow> bool" where
  "feof f = eof f"

definition memcpy :: "buffer \<Rightarrow> buffer \<Rightarrow> nat \<Rightarrow> buffer" where
  "memcpy dst src n = (\<lambda>j. if j < n then src j else dst j)"

text \<open>
  \<^verbatim>\<open>strncmp(buf, lit, 4) == 0\<close> for a literal of four characters none of which is NUL:
  the first four bytes of the buffer are those of the literal.
\<close>

definition strncmp4 :: "buffer \<Rightarrow> string \<Rightarrow> bool" where
  "strncmp4 buf lit = (map buf [0..<4] = map of_char lit)"

text \<open>
  The result of an operation on \<^verbatim>\<open>int\<close> whose exact value is \<open>v\<close>: \<open>v\<close> itself when it
  lies between \<^verbatim>\<open>INT_MIN\<close> and \<^verbatim>\<open>INT_MAX\<close>, and nothing otherwise (signed overflow).
\<close>

definition int_value :: "int \<Rightarrow> int option" where
  "int_value v = (if - 2147483648 \<le> v \<and> v \<le> 2147483647 then Some v else None)"

subsection \<open>The file system and the process environment\<close>

text \<open>
  A path string names a file through \<open>canonical\<close>, which gives every spelling of a path
  (relative, through a link, with \<open>..\<close>) the one name the file system keeps the file
  under. A name holds a regular file with its bytes or a directory; opening a directory
  for reading succeeds and yields no byte. What the operating system and the C++ library
  decide is a field of the environment:
  \<^item> \<open>stat_error\<close>: the message of the \<^verbatim>\<open>filesystem_error\<close> that \<^verbatim>\<open>fs::exists\<close> throws
    when the status of a path cannot be read for a reason other than its absence;
  \<^item> \<open>may_read\<close>, \<open>may_write\<close>: whether a path may be opened for reading, for writing;
  \<^item> \<open>home\<close>: the value of \<^verbatim>\<open>HOME\<close>;
  \<^item> \<open>mkdir_error\<close>: the message \<^verbatim>\<open>create_directories\<close> fails with, if it fails;
  \<^item> \<open>write_limit\<close>: how many bytes the destination accepts before writes to it fail
    (\<open>None\<close>: all of them);
  \<^item> \<open>buffered\<close>: of \<open>n\<close> bytes inserted into an \<^verbatim>\<open>ofstream\<close>, how many are still in
    its buffer, not yet written to the file, when the insertion returns. They are written
    when the stream is destroyed, and a failure then is reported to nobody.
\<close>

datatype node = File "byte list" | Dir

record env =
  fsys :: "string \<rightharpoonup> node"
  canonical :: "string \<Rightarrow> string"
  stat_error :: "string \<Rightarrow> string option"
  may_read :: "string \<Rightarrow> bool"
  may_write :: "string \<Rightarrow> bool"
  home :: "string option"
  mkdir_error :: "string \<Rightarrow> string option"
  write_limit :: "nat option"
  buffered :: "nat \<Rightarrow> nat"

fun bytes_of :: "node \<Rightarrow> byte list" where
  "bytes_of (File bs) = bs"
| "bytes_of Dir = []"

definition fs_exists :: "env \<Rightarrow> string \<Rightarrow> string + bool" where
  "fs_exists e p =
     (case stat_error e p of
        Some m \<Rightarrow> Inl m
      | None \<Rightarrow> Inr (fsys e (canonical e p) \<noteq> None))"

definition fopen_rb :: "env \<Rightarrow> string \<Rightarrow> FILE option" where
  "fopen_rb e p =
     (case fsys e (canonical e p) of
        None \<Rightarrow> None
      | Some n \<Rightarrow>
          if may_read e p then Some \<lparr>contents = bytes_of n, pos = 0, eof = False\<rparr> else None)"

definition create_directories :: "env \<Rightarrow> string \<Rightarrow> string + env" where
  "create_directories e p =
     (case mkdir_error e p of
        Some m \<Rightarrow> Inl m
      | None \<Rightarrow> Inr (e\<lparr>fsys := (fsys e)(canonical e p \<mapsto> Dir)\<rparr>))"

text \<open>\<^verbatim>\<open>fs::path::operator/\<close> with a relative right-hand side.\<close>

definition path_append :: "string \<Rightarrow> string \<Rightarrow> string" where
  "path_append p q =
     (if p = [] then q else if last p = CHR ''/'' then p @ q else p @ ''/'' @ q)"

subsection \<open>class WalletTool\<close>

record WalletTool =
  walletPath :: string
  dbType :: string
  hexKey :: string
  removePass :: bool
  dumpKeys :: bool

text \<open>
  The locals of \<^verbatim>\<open>dumpAllKeys\<close>. \<open>mkey\<close> is the tag buffer \<^verbatim>\<open>char mkey[5]\<close>, \<open>cur_i\<close>
  the cursor \<^verbatim>\<open>int i\<close>, \<open>cout\<close> the lines written so far.
\<close>

record scan =
  wallet :: FILE
  mkey :: buffer
  cur_i :: int
  found_mkey :: bool
  mkey_data :: buffer
  ckey_data :: buffer
  ckey_encrypted :: buffer
  cout :: "string list"

text \<open>
  The first loop. Its condition reads four bytes before it tests anything, so it is a
  function that returns the state after the read as well.
\<close>

definition mkey_cond :: "scan \<Rightarrow> bool \<times> scan" where
  "mkey_cond s =
     (let (k, tag, f) = fread (mkey s) 4 (wallet s)
      in (k = 4 \<and> \<not> feof f \<and> \<not> found_mkey s, s\<lparr>wallet := f, mkey := tag\<rparr>))"

definition mkey_body :: "scan \<Rightarrow> scan option" where
  "mkey_body s =
     Option.bind
       (if strncmp4 (mkey s) ''mkey'' then
          Option.bind (int_value (cur_i s - 72)) (\<lambda>off.
            (let f1 = fseek_set (wallet s) off;
                 (k, d, f2) = fread (mkey_data s) 48 f1
             in Some (s\<lparr>wallet := f2, mkey_data := d,
                        cout := cout s @ [''Mkey_encrypted: '' @ tohex d 48, []],
                        found_mkey := True\<rparr>)))
        else Some s)
       (\<lambda>s1. Option.bind (int_value (cur_i s1 + 1)) (\<lambda>i'.
          Some (s1\<lparr>cur_i := i', wallet := fseek_set (wallet s1) i'\<rparr>)))"

function mkey_loop :: "scan \<Rightarrow> scan option" where
  "mkey_loop s =
     (case mkey_cond s of
        (True, s') \<Rightarrow> (case mkey_body s' of None \<Rightarrow> None | Some s'' \<Rightarrow> mkey_loop s'')
      | (False, s') \<Rightarrow> Some s')"
  by pat_completeness auto

text \<open>The second loop, over the same stream after the rewind.\<close>

definition ckey_cond :: "scan \<Rightarrow> bool \<times> scan" where
  "ckey_cond s =
     (let (k, tag, f) = fread (mkey s) 4 (wallet s)
      in (k = 4 \<and> \<not> feof f, s\<lparr>wallet := f, mkey := tag\<rparr>))"

definition ckey_body :: "scan \<Rightarrow> scan option" where
  "ckey_body s =
     Option.bind
       (if strncmp4 (mkey s) ''ckey'' then
          Option.bind (int_value (cur_i s - 52)) (\<lambda>off.
            (let f1 = fseek_set (wallet s) off;
                 (k, d, f2) = fread (ckey_data s) 123 f1;
                 e = memcpy (ckey_encrypted s) d 48
             in Option.bind (int_value (cur_i s + 3)) (\<lambda>i3.
                  Some (s\<lparr>wallet := f2, ckey_data := d, ckey_encrypted := e,
                         cout := cout s @ [''encrypted ckey: '' @ tohex e 48],
                         cur_i := i3\<rparr>))))
        else Some s)
       (\<lambda>s1. Option.bind (int_value (cur_i s1 + 1)) (\<lambda>i'.
          Some (s1\<lparr>cur_i := i', wallet := fseek_set (wallet s1) i'\<rparr>)))"

function ckey_loop :: "scan \<Rightarrow> scan option" where
  "ckey_loop s =
     (case ckey_cond s of
        (True, s') \<Rightarrow> (case ckey_body s' of None \<Rightarrow> None | Some s'' \<Rightarrow> ckey_loop s'')
      | (False, s') \<Rightarrow> Some s')"
  by pat_completeness auto

text \<open>
  \<^verbatim>\<open>dumpAllKeys\<close>. The memory the function starts with (the tag buffer on the stack and
  the three \<^verbatim>\<open>malloc\<close> blocks) is a parameter: nothing initialises it. The result is
  the message of the exception thrown or the lines printed, and \<open>None\<close> when the cursor
  overflows.
\<close>

record uninit =
  u_mkey :: buffer
  u_mkey_data :: buffer
  u_ckey_data :: buffer
  u_ckey_encrypted :: buffer

definition dumpAllKeys :: "env \<Rightarrow> uninit \<Rightarrow> WalletTool \<Rightarrow> (string + string list) option" where
  "dumpAllKeys e u t =
     (case fopen_rb e (walletPath t) of
        None \<Rightarrow> Some (Inl (''Can't open file '' @ walletPath t))
      | Some w \<Rightarrow>
          Option.bind
            (mkey_loop \<lparr>wallet = w, mkey = u_mkey u, cur_i = 0, found_mkey = False,
                        mkey_data = u_mkey_data u, ckey_data = u_ckey_data u,
                        ckey_encrypted = u_ckey_encrypted u, cout = []\<rparr>)
            (\<lambda>s1.
               if \<not> found_mkey s1
               then Some (Inr (cout s1 @ [''There is no Master Key in the file'']))
               else Option.bind
                      (ckey_loop (s1\<lparr>wallet := fseek_set (wallet s1) 0, cur_i := 0\<rparr>))
                      (\<lambda>s3. Some (Inr (cout s3)))))"

definition isValidHexString :: "string \<Rightarrow> bool" where
  "isValidHexString str =
     (if length str \<noteq> 10 then False
      else list_all (\<lambda>c. (CHR ''0'' \<le> c \<and> c \<le> CHR ''9'') \<or> (CHR ''a'' \<le> c \<and> c \<le> CHR ''f'')
                         \<or> (CHR ''A'' \<le> c \<and> c \<le> CHR ''F'')) str)"

text \<open>\<^verbatim>\<open>getDesktopPath\<close>, the branch compiled where \<^verbatim>\<open>_WIN32\<close> is not defined.\<close>

definition getDesktopPath :: "env \<Rightarrow> string + string" where
  "getDesktopPath e =
     (case home e of
        None \<Rightarrow> Inl ''Cannot determine home directory''
      | Some h \<Rightarrow> Inr (path_append h ''Desktop''))"

text \<open>
  The \<^verbatim>\<open>try\<close> block of \<^verbatim>\<open>removePassword\<close>. Opening the destination creates or empties
  it; the source is read after that, through \<^verbatim>\<open>dst << src.rdbuf()\<close>. Of the bytes
  inserted, the last \<open>buffered\<close> ones stay in the buffer of \<open>dst\<close> and the ones before
  them are written to the file at once. The insertion sets \<^verbatim>\<open>failbit\<close> when it inserts no
  character at all and \<^verbatim>\<open>badbit\<close> when a write it makes fails; \<^verbatim>\<open>dst.good()\<close> is tested
  then. The bytes still in the buffer are written when \<open>dst\<close> goes out of scope, after the
  confirmation has been printed, as far as the destination takes them.
\<close>

definition copy_wallet :: "env \<Rightarrow> WalletTool \<Rightarrow> string \<Rightarrow> env \<times> (string + string list)" where
  "copy_wallet e t destPath =
     (if \<not> (fsys e (canonical e (walletPath t)) \<noteq> None \<and> may_read e (walletPath t))
      then (e, Inl ''Cannot open source wallet file'')
      else if \<not> (may_write e destPath \<and> fsys e (canonical e destPath) \<noteq> Some Dir)
      then (e, Inl ''Cannot create destination file'')
      else
        (let e1 = e\<lparr>fsys := (fsys e)(canonical e destPath \<mapsto> File [])\<rparr>;
             src = (case fsys e1 (canonical e (walletPath t)) of
                      None \<Rightarrow> [] | Some n \<Rightarrow> bytes_of n);
             written_early = length src - min (length src) (buffered e (length src));
             good = (src \<noteq> []
                     \<and> (case write_limit e of None \<Rightarrow> True | Some n \<Rightarrow> written_early \<le> n));
             in_file = (case write_limit e of None \<Rightarrow> src | Some n \<Rightarrow> take n src);
             e2 = e1\<lparr>fsys := (fsys e1)(canonical e destPath \<mapsto> File in_file)\<rparr>
         in if \<not> good
            then (e2, Inl ''Error occurred while writing destination file'')
            else (e2, Inr [''The new wallet.dat file with the password removed was saved to: ''
                           @ destPath])))"

text \<open>
  \<^verbatim>\<open>removePassword\<close>. An exception of \<^verbatim>\<open>fs::exists\<close>, \<^verbatim>\<open>getDesktopPath\<close> or
  \<^verbatim>\<open>create_directories\<close> leaves the function as it is; one thrown inside the \<^verbatim>\<open>try\<close>
  block is wrapped.
\<close>

definition removePassword :: "env \<Rightarrow> WalletTool \<Rightarrow> env \<times> (string + string list)" where
  "removePassword e t =
     (case fs_exists e (walletPath t) of
        Inl m \<Rightarrow> (e, Inl m)
      | Inr False \<Rightarrow> (e, Inl (''Source wallet file does not exist: '' @ walletPath t))
      | Inr True \<Rightarrow>
          (case getDesktopPath e of
             Inl m \<Rightarrow> (e, Inl m)
           | Inr desktopDir \<Rightarrow>
               (case fs_exists e desktopDir of
                  Inl m \<Rightarrow> (e, Inl m)
                | Inr there \<Rightarrow>
                    (case (if \<not> there then create_directories e desktopDir else Inr e) of
                       Inl m \<Rightarrow> (e, Inl m)
                     | Inr e1 \<Rightarrow>
                         (let destPath = path_append desktopDir ''wallet.dat''
                          in case copy_wallet e1 t destPath of
                               (e2, Inl m) \<Rightarrow>
                                 (e2, Inl (''Failed to process wallet file: '' @ m))
                             | (e2, Inr out) \<Rightarrow> (e2, Inr out))))))"

definition showHelp :: "string list" where
  "showHelp =
     [''Wallet Tool Usage:'',
      [],
      ''Option 1: Password Removal'',
      ''  --wallet <path>           Specify wallet.dat file path'',
      ''  --type <BerkelyDB|SQLite> Specify database type'',
      ''  --KEY <5-byte-hex>        Specify 5-byte hexadecimal key'',
      ''  --remove-pass             Remove wallet password'',
      [],
      ''Option 2: Key Dumping'',
      ''  --wallet <path>           Specify wallet.dat file path'',
      ''  --dump-all-keys           Dump all keys from wallet'',
      [],
      ''Help:'',
      ''  --help                    Show this help message'']"

definition validateOptions :: "WalletTool \<Rightarrow> string + unit" where
  "validateOptions t =
     (if walletPath t = [] then Inl ''Wallet path must be specified''
      else if dumpKeys t then
        (if dbType t \<noteq> [] \<or> hexKey t \<noteq> [] \<or> removePass t
         then Inl ''--dump-all-keys can only be used with --wallet''
         else Inr ())
      else if removePass t then
        (if dbType t = [] \<or> hexKey t = []
         then Inl ''--remove-pass requires --wallet, --type, and --KEY options''
         else Inr ())
      else if \<not> dumpKeys t \<and> \<not> removePass t
      then Inl ''Either --dump-all-keys or --remove-pass must be specified''
      else Inr ())"

text \<open>
  The \<^verbatim>\<open>for\<close> loop of \<^verbatim>\<open>parseArgs\<close> over the arguments still to read, ending in
  \<^verbatim>\<open>validateOptions\<close>; \<^verbatim>\<open>--help\<close> prints the usage and returns at once, without the
  validation. The result is the exception's message, or what was printed and the tool.
\<close>

fun parseArgs_loop :: "WalletTool \<Rightarrow> string list \<Rightarrow> string + (string list \<times> WalletTool)" where
  "parseArgs_loop t [] =
     (case validateOptions t of Inl m \<Rightarrow> Inl m | Inr _ \<Rightarrow> Inr ([], t))"
| "parseArgs_loop t (arg # rest) =
     (if arg = ''--help'' then Inr (showHelp, t)
      else if arg = ''--wallet'' then
        (case rest of
           [] \<Rightarrow> Inl ''Wallet path not specified''
         | v # rest' \<Rightarrow> parseArgs_loop (t\<lparr>walletPath := v\<rparr>) rest')
      else if arg = ''--type'' then
        (case rest of
           [] \<Rightarrow> Inl ''Database type not specified''
         | v # rest' \<Rightarrow>
             if v \<noteq> ''BerkelyDB'' \<and> v \<noteq> ''SQLite''
             then Inl (''Invalid database type. Must be 'BerkelyDB' or 'SQLite'' @ [CHR 0x27])
             else parseArgs_loop (t\<lparr>dbType := v\<rparr>) rest')
      else if arg = ''--KEY'' then
        (case rest of
           [] \<Rightarrow> Inl ''KEY not specified''
         | v # rest' \<Rightarrow>
             if \<not> isValidHexString v
             then Inl ''Invalid KEY format. Must be a 5-byte hexadecimal string''
             else parseArgs_loop (t\<lparr>hexKey := v\<rparr>) rest')
      else if arg = ''--remove-pass'' then parseArgs_loop (t\<lparr>removePass := True\<rparr>) rest
      else if arg = ''--dump-all-keys'' then parseArgs_loop (t\<lparr>dumpKeys := True\<rparr>) rest
      else Inl (''Unknown option: '' @ arg))"

text \<open>\<open>argv\<close> is the whole vector, the program's name first; \<open>argc\<close> is its length.\<close>

definition parseArgs :: "WalletTool \<Rightarrow> string list \<Rightarrow> string + (string list \<times> WalletTool)" where
  "parseArgs t argv =
     (if length argv = 1
      then Inl ''No options provided. Use --help for usage information.''
      else parseArgs_loop t (drop 1 argv))"

definition execute :: "env \<Rightarrow> uninit \<Rightarrow> WalletTool \<Rightarrow> (env \<times> (string + string list)) option" where
  "execute e u t =
     (if dumpKeys t then map_option (Pair e) (dumpAllKeys e u t)
      else if removePass t then Some (removePassword e t)
      else Some (e, Inr []))"

definition new_tool :: WalletTool where
  "new_tool = \<lparr>walletPath = [], dbType = [], hexKey = [], removePass = False, dumpKeys = False\<rparr>"

record run =
  stdout :: "string list"
  stderr :: "string list"
  exit_code :: int
  env_after :: env

definition main :: "env \<Rightarrow> uninit \<Rightarrow> string list \<Rightarrow> run option" where
  "main e u argv =
     (case parseArgs new_tool argv of
        Inl m \<Rightarrow>
          Some \<lparr>stdout = [], stderr = [''Error: '' @ m], exit_code = 1, env_after = e\<rparr>
      | Inr (out1, t) \<Rightarrow>
          (case execute e u t of
             None \<Rightarrow> None
           | Some (e', Inl m) \<Rightarrow>
               Some \<lparr>stdout = out1, stderr = [''Error: '' @ m], exit_code = 1, env_after = e'\<rparr>
           | Some (e', Inr out2) \<Rightarrow>
               Some \<lparr>stdout = out1 @ out2, stderr = [], exit_code = 0, env_after = e'\<rparr>))"

section \<open>Notions used in the statements\<close>

text \<open>
  The two digits of a byte (high nibble, then low nibble) and the hex encoding of a run
  of bytes; where a four-character tag stands in the file, and all the places it does,
  in ascending order; the two kinds of output line; the state of the scan when the
  stream stands at the cursor; and the buffer the master-key branch prints for a tag found
  at \<open>p\<close>, read off the stream as the branch leaves it.
\<close>

definition hex2 :: "byte \<Rightarrow> string" where
  "hex2 b = [hexdigit (unat b div 16), hexdigit (unat b mod 16)]"

definition tag_at :: "string \<Rightarrow> byte list \<Rightarrow> nat \<Rightarrow> bool" where
  "tag_at lit bs p = (take 4 (drop p bs) = map of_char lit)"

definition occurrences :: "string \<Rightarrow> byte list \<Rightarrow> nat list" where
  "occurrences lit bs = filter (tag_at lit bs) [0..<length bs]"

definition hexstr :: "byte list \<Rightarrow> string" where
  "hexstr bs = concat (map hex2 bs)"

definition at_cursor :: "byte list \<Rightarrow> nat \<Rightarrow> scan \<Rightarrow> bool" where
  "at_cursor bs n s = (wallet s = \<lparr>contents = bs, pos = n, eof = False\<rparr> \<and> cur_i s = int n)"

definition mkey_window :: "byte list \<Rightarrow> buffer \<Rightarrow> nat \<Rightarrow> buffer" where
  "mkey_window bs d p =
     fst (snd (fread d 48 (fseek_set \<lparr>contents = bs, pos = p + 4, eof = False\<rparr> (int p - 72))))"

text \<open>
  The state in which \<^verbatim>\<open>dumpAllKeys\<close> enters its first loop on a file of bytes \<open>bs\<close>, and
  the state of the second loop after \<open>k\<close> full iterations, if it makes that many.
\<close>

definition scan_start :: "byte list \<Rightarrow> uninit \<Rightarrow> scan" where
  "scan_start bs u = \<lparr>wallet = \<lparr>contents = bs, pos = 0, eof = False\<rparr>, mkey = u_mkey u,
     cur_i = 0, found_mkey = False, mkey_data = u_mkey_data u, ckey_data = u_ckey_data u,
     ckey_encrypted = u_ckey_encrypted u, cout = []\<rparr>"

fun ckey_steps :: "nat \<Rightarrow> scan \<Rightarrow> scan option" where
  "ckey_steps 0 s = Some s"
| "ckey_steps (Suc k) s =
     (case ckey_cond s of
        (True, s') \<Rightarrow> (case ckey_body s' of None \<Rightarrow> None | Some t \<Rightarrow> ckey_steps k t)
      | (False, s') \<Rightarrow> None)"

definition is_mkey_line :: "string \<Rightarrow> bool" where
  "is_mkey_line l = (take 16 l = ''Mkey_encrypted: '')"

definition is_ckey_line :: "string \<Rightarrow> bool" where
  "is_ckey_line l = (take 16 l = ''encrypted ckey: '')"

text \<open>
  The occurrences of a tag computed in one pass over the bytes, and the relation between
  two tools that agree in everything but the value of a key that is set in both or in
  neither; both serve the proofs only.
\<close>

fun scan_tags :: "byte list \<Rightarrow> byte list \<Rightarrow> nat \<Rightarrow> nat list" where
  "scan_tags t [] n = []"
| "scan_tags t (b # bs) n =
     (if take 4 (b # bs) = t then n # scan_tags t bs (Suc n) else scan_tags t bs (Suc n))"

definition same_but_key :: "WalletTool \<Rightarrow> WalletTool \<Rightarrow> bool" where
  "same_but_key a b = (walletPath a = walletPath b \<and> dbType a = dbType b
     \<and> removePass a = removePass b \<and> dumpKeys a = dumpKeys b
     \<and> (hexKey a = []) = (hexKey b = []))"

section \<open>Concrete inputs\<close>

text \<open>
  An environment with the wallet \<open>/w\<close>, a home directory and its Desktop, where every
  open succeeds; memory filled with recognisable bytes where the program initialises
  nothing; the tool as \<open>--wallet /w --dump-all-keys\<close> leaves it; and wallet files with
  tags at known places.
\<close>

definition ex_env :: "byte list \<Rightarrow> env" where
  "ex_env bs = \<lparr>fsys = [''/w'' \<mapsto> File bs, ''/home/u/Desktop'' \<mapsto> Dir],
     canonical = (\<lambda>p. p), stat_error = (\<lambda>_. None),
     may_read = (\<lambda>_. True), may_write = (\<lambda>_. True), home = Some ''/home/u'',
     mkdir_error = (\<lambda>_. None), write_limit = None, buffered = (\<lambda>n. n)\<rparr>"

definition ex_uninit :: uninit where
  "ex_uninit = \<lparr>u_mkey = (\<lambda>_. 0xAA), u_mkey_data = (\<lambda>_. 0xBB), u_ckey_data = (\<lambda>_. 0xCC),
     u_ckey_encrypted = (\<lambda>_. 0xDD)\<rparr>"

definition ex_dump :: WalletTool where
  "ex_dump = \<lparr>walletPath = ''/w'', dbType = [], hexKey = [], removePass = False, dumpKeys = True\<rparr>"

definition ex_wallet_full :: "byte list" where
  "ex_wallet_full = replicate 48 1 @ replicate 24 2 @ map of_char ''mkey'' @ map of_char ''ckey''
     @ map of_char ''ckey'' @ replicate 67 3"

definition ex_wallet_ckey :: "byte list" where
  "ex_wallet_ckey = replicate 52 1 @ map of_char ''ckey'' @ replicate 67 3"

definition ex_wallet_short :: "byte list" where
  "ex_wallet_short = replicate 72 1 @ map of_char ''mkey'' @ map of_char ''ckey''"



definition ex_wallet_two_mkeys :: "byte list" where
  "ex_wallet_two_mkeys = replicate 72 1 @ map of_char ''mkey'' @ map of_char ''mkey''"

definition ex_remove_argv :: "string \<Rightarrow> string list" where
  "ex_remove_argv k = [''wallet-tool'', ''--wallet'', ''/w'', ''--type'', ''SQLite'', ''--KEY'', k,
     ''--remove-pass'']"

definition ex_env_desktop :: env where
  "ex_env_desktop = \<lparr>fsys = [''/home/u/Desktop'' \<mapsto> Dir,
       ''/home/u/Desktop/wallet.dat'' \<mapsto> File [1, 2, 3]],
     canonical = (\<lambda>p. if p = ''/home/u/./Desktop/wallet.dat''
                       then ''/home/u/Desktop/wallet.dat'' else p),
     stat_error = (\<lambda>_. None),
     may_read = (\<lambda>_. True), may_write = (\<lambda>_. True), home = Some ''/home/u'',
     mkdir_error = (\<lambda>_. None), write_limit = None, buffered = (\<lambda>n. n)\<rparr>"

definition ex_wallet_early :: "byte list" where
  "ex_wallet_early = map of_char ''mkey'' @ [0, 0, 0, 0]"

section \<open>Termination of the two scans\<close>

text \<open>
  Both loops end: every iteration that has a result moves the cursor up, and the cursor
  is a value of \<^verbatim>\<open>int\<close>.
\<close>

lemma int_value_Some:
  "int_value v = Some w \<longleftrightarrow> w = v \<and> - 2147483648 \<le> v \<and> v \<le> 2147483647"
  by (auto simp: int_value_def)

lemma int_value_in_range:
  "- 2147483648 \<le> v \<Longrightarrow> v \<le> 2147483647 \<Longrightarrow> int_value v = Some v"
  by (simp add: int_value_def)

lemma fread_count: "fst (fread buf n f) = min n (length (contents f) - pos f)"
  by (simp add: fread_def Let_def min_def)

lemma fread_contents: "contents (snd (snd (fread buf n f))) = contents f"
  by (simp add: fread_def Let_def)

lemma fseek_contents: "contents (fseek_set f off) = contents f"
  by (simp add: fseek_set_def)

lemma fseek_pos: "0 \<le> off \<Longrightarrow> pos (fseek_set f off) = nat off"
  by (simp add: fseek_set_def)

lemma mkey_body_Some:
  assumes "mkey_body s = Some t"
  shows "cur_i t = cur_i s + 1" and "cur_i s < 2147483647"
  using assms
  by (auto simp: mkey_body_def Let_def int_value_Some split: bind_splits if_splits prod.splits)

lemma ckey_body_Some:
  assumes "ckey_body s = Some t"
  shows "cur_i s < cur_i t" and "cur_i t \<le> 2147483647"
  using assms
  by (auto simp: ckey_body_def Let_def int_value_Some split: bind_splits if_splits prod.splits)

lemma mkey_cond_cursor: "cur_i (snd (mkey_cond s)) = cur_i s"
  by (simp add: mkey_cond_def split: prod.splits)

lemma ckey_cond_cursor: "cur_i (snd (ckey_cond s)) = cur_i s"
  by (simp add: ckey_cond_def split: prod.splits)

termination mkey_loop
proof (relation "measure (\<lambda>s. nat (2147483648 - cur_i s))")
  show "wf (measure (\<lambda>s. nat (2147483648 - cur_i s)))" by simp
next
  fix s s' t :: scan and b
  assume "(b, s') = mkey_cond s" "b = True" "mkey_body s' = Some t"
  then have "cur_i s' = cur_i s" using mkey_cond_cursor [of s] by (metis snd_conv)
  with mkey_body_Some [OF \<open>mkey_body s' = Some t\<close>]
  show "(t, s) \<in> measure (\<lambda>s. nat (2147483648 - cur_i s))" by simp
qed

termination ckey_loop
proof (relation "measure (\<lambda>s. nat (2147483648 - cur_i s))")
  show "wf (measure (\<lambda>s. nat (2147483648 - cur_i s)))" by simp
next
  fix s s' t :: scan and b
  assume "(b, s') = ckey_cond s" "b = True" "ckey_body s' = Some t"
  then have "cur_i s' = cur_i s" using ckey_cond_cursor [of s] by (metis snd_conv)
  with ckey_body_Some [OF \<open>ckey_body s' = Some t\<close>]
  show "(t, s) \<in> measure (\<lambda>s. nat (2147483648 - cur_i s))" by simp
qed

declare mkey_loop.simps [simp del] ckey_loop.simps [simp del]

section \<open>The hex reporter\<close>



lemma mask8: "(0xff :: int) = mask 8"
  by (simp add: mask_eq_exp_minus_1)

lemma sint_and_ff: "sint (b :: byte) AND 0xff = uint b"
proof -
  have "sint b AND 0xff = take_bit 8 (signed_take_bit 7 (uint b))"
    by (simp only: mask8 take_bit_eq_mask sint_uint) simp
  also have "\<dots> = take_bit 8 (uint b)"
    by (rule take_bit_signed_take_bit) simp
  also have "\<dots> = uint b"
    by (rule take_bit_int_eq_self) (use uint_lt2p [of b] in simp_all)
  finally show ?thesis .
qed

lemma hex_of_nat_byte:
  assumes "n < 256"
  shows "setw_setfill 2 (CHR ''0'') (hex_of_nat n) = [hexdigit (n div 16), hexdigit (n mod 16)]"
proof (cases "n < 16")
  case True
  then have "hex_of_nat n = [hexdigit n]" by (subst hex_of_nat.simps) simp
  with True show ?thesis by (simp add: setw_setfill_def hexdigit_def)
next
  case False
  with assms have "n div 16 < 16" by simp
  then have "hex_of_nat (n div 16) = [hexdigit (n div 16)]" by (subst hex_of_nat.simps) simp
  with False have "hex_of_nat n = [hexdigit (n div 16), hexdigit (n mod 16)]"
    by (subst hex_of_nat.simps) simp
  then show ?thesis by (simp add: setw_setfill_def)
qed

lemma put_byte: "setw_setfill 2 (CHR ''0'') (put_hex_int (sint (b::byte) AND 0xff)) = hex2 b"
proof -
  have lt: "uint b < 256" using uint_lt2p [of b] by simp
  have ge: "0 \<le> uint b" by simp
  have "(256::int) \<le> 2 ^ 32" by simp
  with lt have "uint b < 2 ^ 32" by (rule less_le_trans)
  with ge have m: "uint b mod 2 ^ 32 = uint b" by (rule mod_pos_pos_trivial)
  have "put_hex_int (sint b AND 0xff) = hex_of_nat (nat (uint b))"
    unfolding put_hex_int_def sint_and_ff m ..
  then have p: "put_hex_int (sint b AND 0xff) = hex_of_nat (unat b)"
    by (simp only: unat_eq_nat_uint)
  have "unat b < 256" using lt ge unfolding unat_eq_nat_uint by linarith
  then show ?thesis unfolding p hex2_def by (rule hex_of_nat_byte)
qed

lemma tohex_loop_eq:
  "0 \<le> i \<Longrightarrow> tohex_loop ptr len i ss = ss @ concat (map (\<lambda>j. hex2 (ptr j)) [nat i ..< nat len])"
proof (induction ptr len i ss rule: tohex_loop.induct)
  case (1 ptr len i ss)
  show ?case
  proof (cases "i < len")
    case True
    have "nat (i + 1) = Suc (nat i)" using "1.prems" by simp
    moreover have "nat i < nat len" using True "1.prems" by simp
    ultimately show ?thesis
      using "1.IH" [OF True] "1.prems" True
      by (subst tohex_loop.simps) (simp add: put_byte upt_conv_Cons)
  next
    case False
    then show ?thesis by (subst tohex_loop.simps) simp
  qed
qed

lemma tohex_eq: "tohex ptr len = concat (map (\<lambda>j. hex2 (ptr j)) [0 ..< nat len])"
  by (simp add: tohex_def tohex_loop_eq)

lemma hexdigit_mem: "d < 16 \<Longrightarrow> hexdigit d \<in> set ''0123456789abcdef''"
  unfolding hexdigit_def by (rule nth_mem) simp

lemma length_hex2: "length (hex2 b) = 2"
  by (simp add: hex2_def)

lemma set_hex2: "set (hex2 b) \<subseteq> set ''0123456789abcdef''"
proof -
  define S where "S = set ''0123456789abcdef''"
  have "unat b < 256" using unsigned_less [of b, where 'a = nat] by simp
  then have "unat b div 16 < 16" "unat b mod 16 < 16" by simp_all
  then have "hexdigit (unat b div 16) \<in> S" "hexdigit (unat b mod 16) \<in> S"
    unfolding S_def by (simp_all only: hexdigit_mem)
  then have "set (hex2 b) \<subseteq> S" by (simp add: hex2_def)
  then show ?thesis unfolding S_def .
qed

lemma length_concat_hex2: "length (concat (map hex2 xs)) = 2 * length xs"
  by (induction xs) (simp_all add: length_hex2)

lemma set_concat_hex2: "set (concat (map hex2 xs)) \<subseteq> set ''0123456789abcdef''"
proof -
  define S where "S = set ''0123456789abcdef''"
  have "set (hex2 b) \<subseteq> S" for b unfolding S_def by (rule set_hex2)
  then have "set (concat (map hex2 xs)) \<subseteq> S" by (induction xs) auto
  then show ?thesis unfolding S_def .
qed

lemma tohex_list: "tohex (\<lambda>j. buf ! j) (int (length buf)) = concat (map hex2 buf)"
proof -
  have "map (\<lambda>j. hex2 (buf ! j)) [0..<length buf] = map hex2 (map (\<lambda>j. buf ! j) [0..<length buf])"
    by (simp only: map_map comp_def)
  also have "\<dots> = map hex2 buf" by (simp only: map_nth)
  finally show ?thesis by (simp add: tohex_eq)
qed

text \<open>
  Claim C6. For a buffer that holds the \<open>L\<close> bytes \<open>buf\<close>, \<open>tohex\<close> called with the
  length \<open>L\<close> returns the bytes' digit pairs in buffer order, each pair the high nibble
  then the low nibble of the byte as lowercase hexadecimal digits: a string of exactly
  \<open>2 * L\<close> characters, all of them among \<open>0123456789abcdef\<close>. The byte \<open>0x0A\<close> is
  rendered \<open>0a\<close>.
\<close>

theorem tohex_two_lowercase_digits_per_byte:
  "tohex (\<lambda>j. buf ! j) (int (length buf))
     = concat (map (\<lambda>b. [hexdigit (unat b div 16), hexdigit (unat b mod 16)]) buf)
   \<and> length (tohex (\<lambda>j. buf ! j) (int (length buf))) = 2 * length buf
   \<and> set (tohex (\<lambda>j. buf ! j) (int (length buf))) \<subseteq> set ''0123456789abcdef''
   \<and> tohex (\<lambda>j. [0x0A] ! j) 1 = ''0a''"
proof (intro conjI)
  have "hex2 = (\<lambda>b. [hexdigit (unat b div 16), hexdigit (unat b mod 16)])"
    by (rule ext) (rule hex2_def)
  then show "tohex (\<lambda>j. buf ! j) (int (length buf))
     = concat (map (\<lambda>b. [hexdigit (unat b div 16), hexdigit (unat b mod 16)]) buf)"
    using tohex_list [of buf] by simp
  show "length (tohex (\<lambda>j. buf ! j) (int (length buf))) = 2 * length buf"
    by (simp only: tohex_list length_concat_hex2)
  show "set (tohex (\<lambda>j. buf ! j) (int (length buf))) \<subseteq> set ''0123456789abcdef''"
    by (simp only: tohex_list set_concat_hex2)
  show "tohex (\<lambda>j. [0x0A] ! j) 1 = ''0a''"
    by (simp add: tohex_eq hex2_def hexdigit_def)
qed

section \<open>The two scans of dumpAllKeys\<close>

text \<open>
  In a file of at most \<^verbatim>\<open>INT_MAX\<close> bytes the cursor never leaves the range of \<^verbatim>\<open>int\<close>:
  both scans have a result, and it is described by the places where the tags stand.
\<close>

lemma map_nth_window:
  "m + k \<le> length bs \<Longrightarrow> map (\<lambda>j. bs ! (m + j)) [0..<k] = take k (drop m bs)"
  by (rule nth_equalityI) simp_all

lemma fread_full:
  assumes "n + k \<le> length bs"
  shows "fread buf k \<lparr>contents = bs, pos = n, eof = False\<rparr>
         = (k, (\<lambda>j. if j < k then bs ! (n + j) else buf j), \<lparr>contents = bs, pos = n + k, eof = False\<rparr>)"
proof -
  have len: "length (take k (drop n bs)) = k" using assms by simp
  have "(\<lambda>j. if j < k then take k (drop n bs) ! j else buf j)
        = (\<lambda>j. if j < k then bs ! (n + j) else buf j)"
    using assms by (intro ext) simp
  then show ?thesis unfolding fread_def Let_def by (simp add: len del: length_take cong: if_cong)
qed

lemma fread_short:
  assumes "\<not> n + k \<le> length bs" "0 < k"
  shows "fst (fread buf k \<lparr>contents = bs, pos = n, eof = False\<rparr>) < k"
  using assms by (simp add: fread_def Let_def min_def)

lemma strncmp4_tag:
  assumes "n + 4 \<le> length bs"
  shows "strncmp4 (\<lambda>j. if j < 4 then bs ! (n + j) else buf j) lit = tag_at lit bs n"
proof -
  have "map (\<lambda>j. if j < 4 then bs ! (n + j) else buf j) [0..<4] = map (\<lambda>j. bs ! (n + j)) [0..<4]"
    by (rule map_cong) simp_all
  also have "\<dots> = take 4 (drop n bs)" using assms by (rule map_nth_window)
  finally show ?thesis by (simp add: strncmp4_def tag_at_def)
qed

lemma tag_at_bound: "length lit = 4 \<Longrightarrow> tag_at lit bs p \<Longrightarrow> p + 4 \<le> length bs"
proof -
  assume l: "length lit = 4" and t: "tag_at lit bs p"
  have "length (take 4 (drop p bs)) = 4" using t l by (simp add: tag_at_def)
  then show ?thesis by simp
qed

lemma mkey_cond_at:
  assumes "at_cursor bs n s" "n + 4 \<le> length bs"
  shows "mkey_cond s = (\<not> found_mkey s,
           s\<lparr>wallet := \<lparr>contents = bs, pos = n + 4, eof = False\<rparr>,
             mkey := (\<lambda>j. if j < 4 then bs ! (n + j) else mkey s j)\<rparr>)"
  using assms by (simp add: mkey_cond_def at_cursor_def fread_full feof_def)

lemma mkey_cond_end:
  assumes "at_cursor bs n s" "\<not> n + 4 \<le> length bs"
  shows "fst (mkey_cond s) = False" "cout (snd (mkey_cond s)) = cout s"
    "found_mkey (snd (mkey_cond s)) = found_mkey s"
  using assms fread_short [of n 4 bs "mkey s"]
  by (auto simp: mkey_cond_def at_cursor_def split: prod.splits)

lemma ckey_cond_at:
  assumes "at_cursor bs n s" "n + 4 \<le> length bs"
  shows "ckey_cond s = (True,
           s\<lparr>wallet := \<lparr>contents = bs, pos = n + 4, eof = False\<rparr>,
             mkey := (\<lambda>j. if j < 4 then bs ! (n + j) else mkey s j)\<rparr>)"
  using assms by (simp add: ckey_cond_def at_cursor_def fread_full feof_def)

lemma ckey_cond_end:
  assumes "at_cursor bs n s" "\<not> n + 4 \<le> length bs"
  shows "fst (ckey_cond s) = False" "cout (snd (ckey_cond s)) = cout s"
  using assms fread_short [of n 4 bs "mkey s"]
  by (auto simp: ckey_cond_def at_cursor_def split: prod.splits)

lemma mkey_cond_contents: "contents (wallet (snd (mkey_cond s))) = contents (wallet s)"
  using fread_contents [of "mkey s" 4 "wallet s"]
  by (auto simp: mkey_cond_def split: prod.splits)

lemma mkey_loop_exit:
  assumes "fst (mkey_cond s) = False"
  shows "mkey_loop s = Some (snd (mkey_cond s))"
  using assms by (subst mkey_loop.simps) (auto split: prod.splits bool.splits)

lemma ckey_loop_exit:
  assumes "fst (ckey_cond s) = False"
  shows "ckey_loop s = Some (snd (ckey_cond s))"
  using assms by (subst ckey_loop.simps) (auto split: prod.splits bool.splits)

lemma mkey_loop_found:
  assumes "found_mkey s"
  shows "\<exists>t. mkey_loop s = Some t \<and> found_mkey t \<and> cout t = cout s
          \<and> contents (wallet t) = contents (wallet s)"
proof -
  have f: "fst (mkey_cond s) = False" using assms by (simp add: mkey_cond_def split: prod.splits)
  have "found_mkey (snd (mkey_cond s))" "cout (snd (mkey_cond s)) = cout s"
    using assms by (simp_all add: mkey_cond_def split: prod.splits)
  then show ?thesis using mkey_loop_exit [OF f] mkey_cond_contents [of s] by simp
qed

lemma FILE_rewind:
  "contents f = bs \<Longrightarrow> fseek_set f (int n) = \<lparr>contents = bs, pos = n, eof = False\<rparr>"
  by (cases f) (simp add: fseek_set_def)

lemma tohex_window:
  assumes "\<And>j. j < 48 \<Longrightarrow> buf j = bs ! (m + j)" and "m + 48 \<le> length bs"
  shows "tohex buf 48 = hexstr (take 48 (drop m bs))"
proof -
  have "map (\<lambda>j. hex2 (buf j)) [0..<48] = map (\<lambda>j. hex2 (bs ! (m + j))) [0..<48]"
    using assms(1) by (intro map_cong) simp_all
  also have "\<dots> = map hex2 (map (\<lambda>j. bs ! (m + j)) [0..<48])"
    by (simp only: map_map comp_def)
  also have "\<dots> = map hex2 (take 48 (drop m bs))"
    using assms(2) by (simp only: map_nth_window)
  finally show ?thesis by (simp add: tohex_eq hexstr_def)
qed

lemma cursor_in_range:
  assumes "n + 4 \<le> length bs" "length bs \<le> 2147483647"
  shows "int_value (int n + 1) = Some (int n + 1)" "int_value (int n + 3) = Some (int n + 3)"
    "int_value (int n + 4) = Some (int n + 4)" "int_value (int n - 72) = Some (int n - 72)"
    "int_value (int n - 52) = Some (int n - 52)"
  using assms by (simp_all add: int_value_def)

lemma mkey_body_nomatch:
  assumes "wallet s = \<lparr>contents = bs, pos = n + 4, eof = False\<rparr>" "cur_i s = int n"
    and "\<not> strncmp4 (mkey s) ''mkey''" and "n + 4 \<le> length bs" "length bs \<le> 2147483647"
  shows "\<exists>t. mkey_body s = Some t \<and> at_cursor bs (Suc n) t \<and> cout t = cout s
          \<and> found_mkey t = found_mkey s \<and> mkey_data t = mkey_data s"
  using assms(1,2,3) cursor_in_range(1) [OF assms(4,5)]
  by (simp add: mkey_body_def fseek_set_def at_cursor_def add.commute)

lemma mkey_body_match:
  assumes "wallet s = \<lparr>contents = bs, pos = n + 4, eof = False\<rparr>" "cur_i s = int n"
    and "strncmp4 (mkey s) ''mkey''" and "n + 4 \<le> length bs" "length bs \<le> 2147483647"
  shows "\<exists>t. mkey_body s = Some t \<and> found_mkey t
          \<and> cout t = cout s @ [''Mkey_encrypted: '' @ tohex (mkey_window bs (mkey_data s) n) 48, []]
          \<and> contents (wallet t) = bs"
proof -
  define f1 where "f1 = fseek_set \<lparr>contents = bs, pos = n + 4, eof = False\<rparr> (int n - 72)"
  obtain k d f2 where r: "fread (mkey_data s) 48 f1 = (k, d, f2)"
    by (cases "fread (mkey_data s) 48 f1") auto
  have c: "contents f2 = bs"
    using fread_contents [of "mkey_data s" 48 f1] r by (simp add: f1_def fseek_contents)
  have d: "d = mkey_window bs (mkey_data s) n" using r by (simp add: mkey_window_def f1_def)
  have "mkey_body s = Some (s\<lparr>wallet := fseek_set f2 (int n + 1), mkey_data := d,
          cout := cout s @ [''Mkey_encrypted: '' @ tohex d 48, []], found_mkey := True,
          cur_i := int n + 1\<rparr>)"
    using assms(1,2,3) cursor_in_range(1,4) [OF assms(4,5)] r
    by (simp add: mkey_body_def Let_def f1_def add.commute)
  then show ?thesis using c d by (simp add: fseek_contents)
qed

lemma find_upt_here: "n < m \<Longrightarrow> P n \<Longrightarrow> find P [n..<m] = Some n"
  by (simp add: upt_conv_Cons)

lemma find_upt_skip: "\<not> P n \<Longrightarrow> find P [n..<m] = find P [Suc n..<m]"
  by (cases "n < m") (simp_all add: upt_conv_Cons)

lemma find_tag_end:
  assumes "length lit = 4" "\<not> n + 4 \<le> length bs"
  shows "find (tag_at lit bs) [n..<length bs] = None"
  using assms tag_at_bound [of lit bs] by (fastforce simp: find_None_iff)

lemma mkey_loop_at:
  assumes "at_cursor bs n s" "\<not> found_mkey s" "length bs \<le> 2147483647"
  shows "\<exists>t. mkey_loop s = Some t
       \<and> found_mkey t = (find (tag_at ''mkey'' bs) [n..<length bs] \<noteq> None)
       \<and> cout t = cout s @
           (case find (tag_at ''mkey'' bs) [n..<length bs] of
              None \<Rightarrow> []
            | Some p \<Rightarrow> [''Mkey_encrypted: '' @ tohex (mkey_window bs (mkey_data s) p) 48, []])
       \<and> contents (wallet t) = bs"
  using assms(1,2)
proof (induction "length bs - n" arbitrary: n s rule: less_induct)
  case less
  show ?case
  proof (cases "n + 4 \<le> length bs")
    case False
    have "mkey_loop s = Some (snd (mkey_cond s))"
      using mkey_cond_end(1) [OF less.prems(1) False] by (rule mkey_loop_exit)
    moreover have "contents (wallet (snd (mkey_cond s))) = bs"
      using mkey_cond_contents [of s] less.prems(1) by (simp add: at_cursor_def)
    ultimately show ?thesis
      using mkey_cond_end(2,3) [OF less.prems(1) False] less.prems(2) False
      by (simp add: find_tag_end)
  next
    case True
    define s1 where "s1 = s\<lparr>wallet := \<lparr>contents = bs, pos = n + 4, eof = False\<rparr>,
             mkey := (\<lambda>j. if j < 4 then bs ! (n + j) else mkey s j)\<rparr>"
    have c: "mkey_cond s = (True, s1)"
      using mkey_cond_at [OF less.prems(1) True] less.prems(2) by (simp add: s1_def)
    have l: "mkey_loop s = (case mkey_body s1 of None \<Rightarrow> None | Some s'' \<Rightarrow> mkey_loop s'')"
      by (subst mkey_loop.simps) (simp add: c)
    have w: "wallet s1 = \<lparr>contents = bs, pos = n + 4, eof = False\<rparr>" "cur_i s1 = int n"
      using less.prems(1) by (simp_all add: s1_def at_cursor_def)
    have t: "strncmp4 (mkey s1) ''mkey'' = tag_at ''mkey'' bs n"
      using strncmp4_tag [OF True] by (simp add: s1_def)
    have o: "cout s1 = cout s" "mkey_data s1 = mkey_data s" "found_mkey s1 = found_mkey s"
      by (simp_all add: s1_def)
    show ?thesis
    proof (cases "tag_at ''mkey'' bs n")
      case True
      with t have m: "strncmp4 (mkey s1) ''mkey''" by simp
      have f: "find (tag_at ''mkey'' bs) [n..<length bs] = Some n"
        using True \<open>n + 4 \<le> length bs\<close> by (intro find_upt_here) simp_all
      from mkey_body_match [OF w m \<open>n + 4 \<le> length bs\<close> assms(3)] obtain t1
        where b: "mkey_body s1 = Some t1" "found_mkey t1"
          "cout t1 = cout s1 @ [''Mkey_encrypted: '' @ tohex (mkey_window bs (mkey_data s1) n) 48, []]"
          "contents (wallet t1) = bs"
        by blast
      from mkey_loop_found [OF b(2)] obtain t2
        where e: "mkey_loop t1 = Some t2" "found_mkey t2" "cout t2 = cout t1"
          "contents (wallet t2) = contents (wallet t1)"
        by blast
      have "mkey_loop s = Some t2" using l b(1) e(1) by simp
      then show ?thesis using e(2,3,4) b(3,4) o f by simp
    next
      case False
      with t have m: "\<not> strncmp4 (mkey s1) ''mkey''" by simp
      from mkey_body_nomatch [OF w m True assms(3)] obtain t1
        where b: "mkey_body s1 = Some t1" "at_cursor bs (Suc n) t1" "cout t1 = cout s1"
          "found_mkey t1 = found_mkey s1" "mkey_data t1 = mkey_data s1"
        by blast
      have d: "length bs - Suc n < length bs - n" using True by simp
      have sk: "find (tag_at ''mkey'' bs) [n..<length bs] = find (tag_at ''mkey'' bs) [Suc n..<length bs]"
        using False by (rule find_upt_skip [of "tag_at ''mkey'' bs" n])
      have nf: "\<not> found_mkey t1" using b(4) o(3) less.prems(2) by simp
      have "mkey_loop s = mkey_loop t1" using l b(1) by simp
      with less.hyps [OF d b(2) nf] b(3,5) o
      show ?thesis by (simp add: sk cong: option.case_cong)
    qed
  qed
qed

lemma tag_at_nth:
  assumes "length lit = 4" "tag_at lit bs p" "j < 4"
  shows "bs ! (p + j) = of_char (lit ! j)"
proof -
  have b: "p + 4 \<le> length bs" using assms(1,2) by (rule tag_at_bound)
  have "take 4 (drop p bs) ! j = map of_char lit ! j" using assms(2) by (simp add: tag_at_def)
  then show ?thesis using assms(1,3) b by simp
qed

lemma ckey_no_overlap:
  assumes "tag_at ''ckey'' bs n"
  shows "\<not> tag_at ''ckey'' bs (Suc n)" "\<not> tag_at ''ckey'' bs (Suc (Suc n))"
    "\<not> tag_at ''ckey'' bs (Suc (Suc (Suc n)))"
proof -
  have a: "bs ! (n + 1) = of_char (CHR ''k'')" "bs ! (n + 2) = of_char (CHR ''e'')"
    "bs ! (n + 3) = of_char (CHR ''y'')"
    using tag_at_nth [OF _ assms, of 1] tag_at_nth [OF _ assms, of 2] tag_at_nth [OF _ assms, of 3]
    by simp_all
  have c: "\<not> tag_at ''ckey'' bs (n + 1)" "\<not> tag_at ''ckey'' bs (n + 2)"
    "\<not> tag_at ''ckey'' bs (n + 3)"
    using tag_at_nth [of "''ckey''" bs "n + 1" 0] tag_at_nth [of "''ckey''" bs "n + 2" 0]
      tag_at_nth [of "''ckey''" bs "n + 3" 0] a
    by auto
  have e: "Suc n = n + 1" "Suc (Suc n) = n + 2" "Suc (Suc (Suc n)) = n + 3" by simp_all
  show "\<not> tag_at ''ckey'' bs (Suc n)" unfolding e(1) by (rule c(1))
  show "\<not> tag_at ''ckey'' bs (Suc (Suc n))" unfolding e(2) by (rule c(2))
  show "\<not> tag_at ''ckey'' bs (Suc (Suc (Suc n)))" unfolding e(3) by (rule c(3))
qed

lemma filter_upt_skip: "\<not> P n \<Longrightarrow> filter P [n..<m] = filter P [Suc n..<m]"
  by (cases "n < m") (simp_all add: upt_conv_Cons)

lemma filter_ckey_match:
  assumes "tag_at ''ckey'' bs n"
  shows "filter (tag_at ''ckey'' bs) [n..<length bs]
         = n # filter (tag_at ''ckey'' bs) [n + 4..<length bs]"
proof -
  have b: "n + 4 \<le> length bs" using assms by (intro tag_at_bound) simp_all
  then have "filter (tag_at ''ckey'' bs) [n..<length bs]
             = n # filter (tag_at ''ckey'' bs) [Suc n..<length bs]"
    using assms by (simp add: upt_conv_Cons)
  also have "filter (tag_at ''ckey'' bs) [Suc n..<length bs]
             = filter (tag_at ''ckey'' bs) [Suc (Suc n)..<length bs]"
    using ckey_no_overlap(1) [OF assms] by (rule filter_upt_skip)
  also have "\<dots> = filter (tag_at ''ckey'' bs) [Suc (Suc (Suc n))..<length bs]"
    using ckey_no_overlap(2) [OF assms] by (rule filter_upt_skip)
  also have "\<dots> = filter (tag_at ''ckey'' bs) [Suc (Suc (Suc (Suc n)))..<length bs]"
    using ckey_no_overlap(3) [OF assms] by (rule filter_upt_skip)
  finally show ?thesis by (simp add: numeral_eq_Suc)
qed

lemma filter_tag_end:
  assumes "length lit = 4" "\<not> n + 4 \<le> length bs"
  shows "filter (tag_at lit bs) [n..<length bs] = []"
  using assms tag_at_bound [of lit bs] by (fastforce simp: filter_empty_conv)

lemma ckey_body_nomatch:
  assumes "wallet s = \<lparr>contents = bs, pos = n + 4, eof = False\<rparr>" "cur_i s = int n"
    and "\<not> strncmp4 (mkey s) ''ckey''" and "n + 4 \<le> length bs" "length bs \<le> 2147483647"
  shows "\<exists>t. ckey_body s = Some t \<and> at_cursor bs (Suc n) t \<and> cout t = cout s"
  using assms(1,2,3) cursor_in_range(1) [OF assms(4,5)]
  by (simp add: ckey_body_def fseek_set_def at_cursor_def add.commute)

lemma ckey_body_match:
  assumes w: "wallet s = \<lparr>contents = bs, pos = n + 4, eof = False\<rparr>" "cur_i s = int n"
    and m: "strncmp4 (mkey s) ''ckey''" and n: "n + 4 \<le> length bs" "length bs \<le> 2147483647"
  shows "\<exists>t x. ckey_body s = Some t \<and> at_cursor bs (n + 4) t
          \<and> cout t = cout s @ [''encrypted ckey: '' @ x]
          \<and> (52 \<le> n \<longrightarrow> x = hexstr (take 48 (drop (n - 52) bs)))"
proof -
  define f1 where "f1 = fseek_set \<lparr>contents = bs, pos = n + 4, eof = False\<rparr> (int n - 52)"
  obtain k d f2 where r: "fread (ckey_data s) 123 f1 = (k, d, f2)"
    by (cases "fread (ckey_data s) 123 f1") auto
  have c: "contents f2 = bs"
    using fread_contents [of "ckey_data s" 123 f1] r by (simp add: f1_def fseek_contents)
  define x where "x = tohex (memcpy (ckey_encrypted s) d 48) 48"
  have b: "ckey_body s = Some (s\<lparr>wallet := fseek_set f2 (int n + 4), ckey_data := d,
          ckey_encrypted := memcpy (ckey_encrypted s) d 48,
          cout := cout s @ [''encrypted ckey: '' @ x], cur_i := int n + 4\<rparr>)"
    using w m cursor_in_range(2,3,5) [OF n] r
    by (simp add: ckey_body_def Let_def f1_def x_def add.commute)
  have p: "fseek_set f2 (int n + 4) = \<lparr>contents = bs, pos = n + 4, eof = False\<rparr>"
    using FILE_rewind [OF c, of "n + 4"] by simp
  have "x = hexstr (take 48 (drop (n - 52) bs))" if "52 \<le> n"
  proof -
    have s: "f1 = \<lparr>contents = bs, pos = n - 52, eof = False\<rparr>"
      using that by (simp add: f1_def fseek_set_def nat_diff_distrib)
    have d: "d j = bs ! (n - 52 + j)" if "j < 48" for j
      using r that n \<open>52 \<le> n\<close> by (auto simp: fread_def Let_def s)
    show ?thesis
      unfolding x_def using d n that by (intro tohex_window) (simp_all add: memcpy_def)
  qed
  then show ?thesis using b p by (simp add: at_cursor_def)
qed

lemma ckey_loop_at:
  assumes "at_cursor bs n s" "length bs \<le> 2147483647"
  shows "\<exists>t xs. ckey_loop s = Some t
       \<and> cout t = cout s @ map (\<lambda>x. ''encrypted ckey: '' @ x) xs
       \<and> length xs = length (filter (tag_at ''ckey'' bs) [n..<length bs])
       \<and> ((\<forall>p. n \<le> p \<and> tag_at ''ckey'' bs p \<longrightarrow> 52 \<le> p)
           \<longrightarrow> xs = map (\<lambda>p. hexstr (take 48 (drop (p - 52) bs)))
                       (filter (tag_at ''ckey'' bs) [n..<length bs]))"
  using assms(1)
proof (induction "length bs - n" arbitrary: n s rule: less_induct)
  case less
  show ?case
  proof (cases "n + 4 \<le> length bs")
    case False
    have "ckey_loop s = Some (snd (ckey_cond s))"
      using ckey_cond_end(1) [OF less.prems(1) False] by (rule ckey_loop_exit)
    then have "ckey_loop s = Some (snd (ckey_cond s))
       \<and> cout (snd (ckey_cond s)) = cout s @ map (\<lambda>x. ''encrypted ckey: '' @ x) []
       \<and> length ([] :: string list) = length (filter (tag_at ''ckey'' bs) [n..<length bs])
       \<and> ((\<forall>p. n \<le> p \<and> tag_at ''ckey'' bs p \<longrightarrow> 52 \<le> p)
           \<longrightarrow> [] = map (\<lambda>p. hexstr (take 48 (drop (p - 52) bs)))
                       (filter (tag_at ''ckey'' bs) [n..<length bs]))"
      using ckey_cond_end(2) [OF less.prems(1) False] False by (simp add: filter_tag_end)
    then show ?thesis by blast
  next
    case True
    define s1 where "s1 = s\<lparr>wallet := \<lparr>contents = bs, pos = n + 4, eof = False\<rparr>,
             mkey := (\<lambda>j. if j < 4 then bs ! (n + j) else mkey s j)\<rparr>"
    have c: "ckey_cond s = (True, s1)"
      using ckey_cond_at [OF less.prems(1) True] by (simp add: s1_def)
    have l: "ckey_loop s = (case ckey_body s1 of None \<Rightarrow> None | Some s'' \<Rightarrow> ckey_loop s'')"
      by (subst ckey_loop.simps) (simp add: c)
    have w: "wallet s1 = \<lparr>contents = bs, pos = n + 4, eof = False\<rparr>" "cur_i s1 = int n"
      using less.prems(1) by (simp_all add: s1_def at_cursor_def)
    have t: "strncmp4 (mkey s1) ''ckey'' = tag_at ''ckey'' bs n"
      using strncmp4_tag [OF True] by (simp add: s1_def)
    have o: "cout s1 = cout s" by (simp add: s1_def)
    show ?thesis
    proof (cases "tag_at ''ckey'' bs n")
      case True
      with t have m: "strncmp4 (mkey s1) ''ckey''" by simp
      from ckey_body_match [OF w m \<open>n + 4 \<le> length bs\<close> assms(2)] obtain t1 x
        where b: "ckey_body s1 = Some t1" "at_cursor bs (n + 4) t1"
          "cout t1 = cout s1 @ [''encrypted ckey: '' @ x]"
          "52 \<le> n \<longrightarrow> x = hexstr (take 48 (drop (n - 52) bs))"
        by blast
      have d: "length bs - (n + 4) < length bs - n" using \<open>n + 4 \<le> length bs\<close> by simp
      from less.hyps [OF d b(2)] obtain t2 xs
        where h: "ckey_loop t1 = Some t2"
          "cout t2 = cout t1 @ map (\<lambda>x. ''encrypted ckey: '' @ x) xs"
          "length xs = length (filter (tag_at ''ckey'' bs) [n + 4..<length bs])"
          "(\<forall>p. n + 4 \<le> p \<and> tag_at ''ckey'' bs p \<longrightarrow> 52 \<le> p)
           \<longrightarrow> xs = map (\<lambda>p. hexstr (take 48 (drop (p - 52) bs)))
                       (filter (tag_at ''ckey'' bs) [n + 4..<length bs])"
        by blast
      have 1: "ckey_loop s = Some t2" using l b(1) h(1) by simp
      have 2: "cout t2 = cout s @ map (\<lambda>x. ''encrypted ckey: '' @ x) (x # xs)"
        using h(2) b(3) o by simp
      have 3: "length (x # xs) = length (filter (tag_at ''ckey'' bs) [n..<length bs])"
        using h(3) by (simp add: filter_ckey_match [OF True])
      have 4: "x # xs = map (\<lambda>p. hexstr (take 48 (drop (p - 52) bs)))
                       (filter (tag_at ''ckey'' bs) [n..<length bs])"
        if a: "\<forall>p. n \<le> p \<and> tag_at ''ckey'' bs p \<longrightarrow> 52 \<le> p"
      proof -
        have "52 \<le> n" using a True by simp
        moreover have "\<forall>p. n + 4 \<le> p \<and> tag_at ''ckey'' bs p \<longrightarrow> 52 \<le> p" using a by simp
        ultimately show ?thesis using b(4) h(4) by (simp add: filter_ckey_match [OF True])
      qed
      show ?thesis
      proof (intro exI conjI impI)
        show "ckey_loop s = Some t2" by (rule 1)
        show "cout t2 = cout s @ map (\<lambda>x. ''encrypted ckey: '' @ x) (x # xs)" by (rule 2)
        show "length (x # xs) = length (filter (tag_at ''ckey'' bs) [n..<length bs])" by (rule 3)
        show "x # xs = map (\<lambda>p. hexstr (take 48 (drop (p - 52) bs)))
                       (filter (tag_at ''ckey'' bs) [n..<length bs])"
          if "\<forall>p. n \<le> p \<and> tag_at ''ckey'' bs p \<longrightarrow> 52 \<le> p"
          using that by (rule 4)
      qed
    next
      case False
      with t have m: "\<not> strncmp4 (mkey s1) ''ckey''" by simp
      from ckey_body_nomatch [OF w m True assms(2)] obtain t1
        where b: "ckey_body s1 = Some t1" "at_cursor bs (Suc n) t1" "cout t1 = cout s1"
        by blast
      have d: "length bs - Suc n < length bs - n" using True by simp
      have sk: "filter (tag_at ''ckey'' bs) [n..<length bs]
                = filter (tag_at ''ckey'' bs) [Suc n..<length bs]"
        using False by (rule filter_upt_skip)
      from less.hyps [OF d b(2)] obtain t2 xs
        where h: "ckey_loop t1 = Some t2"
          "cout t2 = cout t1 @ map (\<lambda>x. ''encrypted ckey: '' @ x) xs"
          "length xs = length (filter (tag_at ''ckey'' bs) [Suc n..<length bs])"
          "(\<forall>p. Suc n \<le> p \<and> tag_at ''ckey'' bs p \<longrightarrow> 52 \<le> p)
           \<longrightarrow> xs = map (\<lambda>p. hexstr (take 48 (drop (p - 52) bs)))
                       (filter (tag_at ''ckey'' bs) [Suc n..<length bs])"
        by blast
      have 1: "ckey_loop s = Some t2" using l b(1) h(1) by simp
      have 2: "cout t2 = cout s @ map (\<lambda>x. ''encrypted ckey: '' @ x) xs"
        using h(2) b(3) o by simp
      have 3: "length xs = length (filter (tag_at ''ckey'' bs) [n..<length bs])"
        using h(3) by (simp add: sk)
      have 4: "xs = map (\<lambda>p. hexstr (take 48 (drop (p - 52) bs)))
                       (filter (tag_at ''ckey'' bs) [n..<length bs])"
        if a: "\<forall>p. n \<le> p \<and> tag_at ''ckey'' bs p \<longrightarrow> 52 \<le> p"
      proof -
        have "\<forall>p. Suc n \<le> p \<and> tag_at ''ckey'' bs p \<longrightarrow> 52 \<le> p" using a by simp
        then show ?thesis using h(4) by (simp add: sk)
      qed
      show ?thesis
      proof (intro exI conjI impI)
        show "ckey_loop s = Some t2" by (rule 1)
        show "cout t2 = cout s @ map (\<lambda>x. ''encrypted ckey: '' @ x) xs" by (rule 2)
        show "length xs = length (filter (tag_at ''ckey'' bs) [n..<length bs])" by (rule 3)
        show "xs = map (\<lambda>p. hexstr (take 48 (drop (p - 52) bs)))
                       (filter (tag_at ''ckey'' bs) [n..<length bs])"
          if "\<forall>p. n \<le> p \<and> tag_at ''ckey'' bs p \<longrightarrow> 52 \<le> p"
          using that by (rule 4)
      qed
    qed
  qed
qed

lemma mkey_window_in_file:
  assumes "72 \<le> p" "p + 4 \<le> length bs"
  shows "tohex (mkey_window bs d p) 48 = hexstr (take 48 (drop (p - 72) bs))"
proof -
  have s: "fseek_set \<lparr>contents = bs, pos = p + 4, eof = False\<rparr> (int p - 72)
           = \<lparr>contents = bs, pos = p - 72, eof = False\<rparr>"
    using assms(1) by (simp add: fseek_set_def nat_diff_distrib)
  have "p - 72 + 48 \<le> length bs" using assms by simp
  from fread_full [OF this, of d]
  have "mkey_window bs d p j = bs ! (p - 72 + j)" if "j < 48" for j
    using that by (simp add: mkey_window_def s)
  then show ?thesis using assms by (intro tohex_window) simp_all
qed

lemma fopen_file:
  assumes "fsys e (canonical e p) = Some (File bs)" "may_read e p"
  shows "fopen_rb e p = Some \<lparr>contents = bs, pos = 0, eof = False\<rparr>"
  using assms by (simp add: fopen_rb_def)

lemma dumpAllKeys_no_mkey:
  assumes "fsys e (canonical e (walletPath t)) = Some (File bs)" "may_read e (walletPath t)"
    and "length bs \<le> 2147483647"
    and "find (tag_at ''mkey'' bs) [0..<length bs] = None"
  shows "dumpAllKeys e u t = Some (Inr [''There is no Master Key in the file''])"
proof -
  define s0 where "s0 = \<lparr>wallet = \<lparr>contents = bs, pos = 0, eof = False\<rparr>, mkey = u_mkey u,
     cur_i = 0, found_mkey = False, mkey_data = u_mkey_data u, ckey_data = u_ckey_data u,
     ckey_encrypted = u_ckey_encrypted u, cout = []\<rparr>"
  have a: "at_cursor bs 0 s0" "\<not> found_mkey s0" by (simp_all add: s0_def at_cursor_def)
  from mkey_loop_at [OF a assms(3)] assms(4) obtain s1
    where "mkey_loop s0 = Some s1" "\<not> found_mkey s1" "cout s1 = []"
    by (auto simp: s0_def)
  then show ?thesis
    using fopen_file [OF assms(1,2)] by (simp add: dumpAllKeys_def s0_def)
qed

lemma dumpAllKeys_mkey:
  assumes "fsys e (canonical e (walletPath t)) = Some (File bs)" "may_read e (walletPath t)"
    and "length bs \<le> 2147483647"
    and "find (tag_at ''mkey'' bs) [0..<length bs] = Some pm"
  shows "\<exists>s2. at_cursor bs 0 s2
           \<and> cout s2 = [''Mkey_encrypted: '' @ tohex (mkey_window bs (u_mkey_data u) pm) 48, []]
           \<and> dumpAllKeys e u t = map_option (\<lambda>s3. Inr (cout s3)) (ckey_loop s2)"
proof -
  define s0 where "s0 = \<lparr>wallet = \<lparr>contents = bs, pos = 0, eof = False\<rparr>, mkey = u_mkey u,
     cur_i = 0, found_mkey = False, mkey_data = u_mkey_data u, ckey_data = u_ckey_data u,
     ckey_encrypted = u_ckey_encrypted u, cout = []\<rparr>"
  have a: "at_cursor bs 0 s0" "\<not> found_mkey s0" by (simp_all add: s0_def at_cursor_def)
  from mkey_loop_at [OF a assms(3)] assms(4) obtain s1
    where s1: "mkey_loop s0 = Some s1" and f: "found_mkey s1"
      and c: "cout s1 = [''Mkey_encrypted: '' @ tohex (mkey_window bs (u_mkey_data u) pm) 48, []]"
      and k: "contents (wallet s1) = bs"
    by (auto simp: s0_def)
  define s2 where "s2 = s1\<lparr>wallet := fseek_set (wallet s1) 0, cur_i := 0\<rparr>"
  have "fseek_set (wallet s1) 0 = \<lparr>contents = bs, pos = 0, eof = False\<rparr>"
    using FILE_rewind [of "wallet s1" bs 0] k by simp
  then have "at_cursor bs 0 s2" by (simp add: s2_def at_cursor_def)
  moreover have "cout s2 = cout s1" by (simp add: s2_def)
  moreover have "dumpAllKeys e u t = map_option (\<lambda>s3. Inr (cout s3)) (ckey_loop s2)"
    using fopen_file [OF assms(1,2)] f s1
    by (cases "ckey_loop s2") (simp_all add: dumpAllKeys_def s0_def [symmetric] s2_def [symmetric])
  ultimately show ?thesis using c by auto
qed

lemma filter_shift:
  "map ((+) n) (filter (\<lambda>p. take 4 (drop p bs) = t) [0..<length bs]) = scan_tags t bs n"
proof (induction bs arbitrary: n)
  case Nil
  show ?case by simp
next
  case (Cons b bs)
  have "[0..<Suc (length bs)] = 0 # [Suc 0..<Suc (length bs)]"
    by (rule upt_conv_Cons) simp
  then have u: "[0..<length (b # bs)] = 0 # map Suc [0..<length bs]"
    by (simp only: map_Suc_upt length_Cons)
  have f: "filter (\<lambda>p. take 4 (drop p (b # bs)) = t) (map Suc [0..<length bs])
           = map Suc (filter (\<lambda>p. take 4 (drop p bs) = t) [0..<length bs])"
    by (simp add: filter_map comp_def)
  have m: "map ((+) n) (map Suc xs) = map ((+) (Suc n)) xs" for xs by simp
  show ?case
    unfolding u using Cons.IH [of "Suc n"]
    by (simp only: filter.simps f m list.map scan_tags.simps drop_0 split: if_splits) simp
qed

lemma occurrences_scan: "occurrences lit bs = scan_tags (map of_char lit) bs 0"
proof -
  have "map ((+) (0::nat)) xs = xs" for xs by (rule map_idI) simp
  then show ?thesis
    using filter_shift [of 0 bs "map of_char lit"]
    by (simp add: occurrences_def tag_at_def [abs_def])
qed

lemma find_filter: "find P xs = (case filter P xs of [] \<Rightarrow> None | x # _ \<Rightarrow> Some x)"
  by (induction xs) simp_all

lemma find_occurrences:
  "find (tag_at lit bs) [0..<length bs] = (case occurrences lit bs of [] \<Rightarrow> None | p # _ \<Rightarrow> Some p)"
  by (simp add: find_filter occurrences_def)

lemma ex_full_mkey: "occurrences ''mkey'' ex_wallet_full = [72]"
  unfolding occurrences_scan by code_simp

lemma ex_full_ckey: "occurrences ''ckey'' ex_wallet_full = [76, 80]"
  unfolding occurrences_scan by code_simp

lemma ex_ckey_mkey: "occurrences ''mkey'' ex_wallet_ckey = []"
  unfolding occurrences_scan by code_simp

lemma ex_ckey_ckey: "occurrences ''ckey'' ex_wallet_ckey = [52]"
  unfolding occurrences_scan by code_simp

lemma ex_short_mkey: "occurrences ''mkey'' ex_wallet_short = [72]"
  unfolding occurrences_scan by code_simp

lemma ex_short_ckey: "occurrences ''ckey'' ex_wallet_short = [76]"
  unfolding occurrences_scan by code_simp

lemma ex_lengths:
  "length ex_wallet_full = 151" "length ex_wallet_ckey = 123" "length ex_wallet_short = 80"
  "length ex_wallet_two_mkeys = 80" "length ex_wallet_early = 8"
  by (simp_all add: ex_wallet_full_def ex_wallet_ckey_def ex_wallet_short_def
      ex_wallet_two_mkeys_def ex_wallet_early_def)

subsection \<open>The output of dumpAllKeys\<close>

lemma tag_at_occurrence: "length lit = 4 \<Longrightarrow> tag_at lit bs p \<longleftrightarrow> p \<in> set (occurrences lit bs)"
  using tag_at_bound [of lit bs p] by (auto simp: occurrences_def)

lemma dump_no_master_key:
  assumes "fsys e (canonical e (walletPath t)) = Some (File bs)" "may_read e (walletPath t)"
    and "length bs \<le> 2147483647"
    and "occurrences ''mkey'' bs = []"
  shows "dumpAllKeys e u t = Some (Inr [''There is no Master Key in the file''])"
  by (rule dumpAllKeys_no_mkey [OF assms(1,2,3)]) (simp add: find_occurrences assms(4))

lemma dump_master_key:
  assumes "fsys e (canonical e (walletPath t)) = Some (File bs)" "may_read e (walletPath t)"
    and "length bs \<le> 2147483647"
    and "occurrences ''mkey'' bs = pm # rest"
  shows "\<exists>s2. at_cursor bs 0 s2
           \<and> cout s2 = [''Mkey_encrypted: '' @ tohex (mkey_window bs (u_mkey_data u) pm) 48, []]
           \<and> dumpAllKeys e u t = map_option (\<lambda>s3. Inr (cout s3)) (ckey_loop s2)"
  by (rule dumpAllKeys_mkey [OF assms(1,2,3)]) (simp add: find_occurrences assms(4))

lemma dump_lines:
  assumes "fsys e (canonical e (walletPath t)) = Some (File bs)" "may_read e (walletPath t)"
    and "length bs \<le> 2147483647"
    and "occurrences ''mkey'' bs = pm # rest"
  shows "\<exists>xs. dumpAllKeys e u t
           = Some (Inr ([''Mkey_encrypted: '' @ tohex (mkey_window bs (u_mkey_data u) pm) 48, []]
                        @ map (\<lambda>x. ''encrypted ckey: '' @ x) xs))
         \<and> length xs = length (occurrences ''ckey'' bs)
         \<and> ((\<forall>p\<in>set (occurrences ''ckey'' bs). 52 \<le> p)
             \<longrightarrow> xs = map (\<lambda>p. hexstr (take 48 (drop (p - 52) bs))) (occurrences ''ckey'' bs))"
proof -
  from dump_master_key [OF assms, of u] obtain s2
    where s: "at_cursor bs 0 s2"
      "cout s2 = [''Mkey_encrypted: '' @ tohex (mkey_window bs (u_mkey_data u) pm) 48, []]"
      "dumpAllKeys e u t = map_option (\<lambda>s3. Inr (cout s3)) (ckey_loop s2)"
    by blast
  from ckey_loop_at [OF s(1) assms(3)] obtain t3 xs
    where c: "ckey_loop s2 = Some t3"
      "cout t3 = cout s2 @ map (\<lambda>x. ''encrypted ckey: '' @ x) xs"
      "length xs = length (filter (tag_at ''ckey'' bs) [0..<length bs])"
      "(\<forall>p. 0 \<le> p \<and> tag_at ''ckey'' bs p \<longrightarrow> 52 \<le> p)
       \<longrightarrow> xs = map (\<lambda>p. hexstr (take 48 (drop (p - 52) bs)))
                   (filter (tag_at ''ckey'' bs) [0..<length bs])"
    by blast
  show ?thesis
  proof (intro exI conjI impI)
    show "dumpAllKeys e u t
           = Some (Inr ([''Mkey_encrypted: '' @ tohex (mkey_window bs (u_mkey_data u) pm) 48, []]
                        @ map (\<lambda>x. ''encrypted ckey: '' @ x) xs))"
      using s(3) c(1,2) s(2) by simp
    show "length xs = length (occurrences ''ckey'' bs)"
      using c(3) by (simp add: occurrences_def)
    show "xs = map (\<lambda>p. hexstr (take 48 (drop (p - 52) bs))) (occurrences ''ckey'' bs)"
      if a: "\<forall>p\<in>set (occurrences ''ckey'' bs). 52 \<le> p"
    proof -
      have "\<forall>p. 0 \<le> p \<and> tag_at ''ckey'' bs p \<longrightarrow> 52 \<le> p"
        using a by (simp add: tag_at_occurrence)
      with c(4) show ?thesis by (simp add: occurrences_def)
    qed
  qed
qed

lemma filter_ckey_lines:
  "filter is_ckey_line (map (\<lambda>x. ''encrypted ckey: '' @ x) xs)
   = map (\<lambda>x. ''encrypted ckey: '' @ x) xs"
  by (induction xs) (simp_all add: is_ckey_line_def)

lemma filter_mkey_lines:
  "filter is_mkey_line (map (\<lambda>x. ''encrypted ckey: '' @ x) xs) = []"
  by (induction xs) (simp_all add: is_mkey_line_def)

lemma ex_full_file:
  "fsys (ex_env bs) (canonical (ex_env bs) (walletPath ex_dump)) = Some (File bs)"
  "may_read (ex_env bs) (walletPath ex_dump)"
  by (simp_all add: ex_env_def ex_dump_def)

text \<open>
  Claim C1, as the code has it. When no \<open>mkey\<close> tag is matched in the wallet file (a
  file of at most \<^verbatim>\<open>INT_MAX\<close> bytes, so that the cursor \<^verbatim>\<open>int i\<close> can count its bytes),
  \<open>dumpAllKeys\<close> prints the line \<open>There is no Master Key in the file\<close> and returns: that
  line is all of its output. The check-key scan is not run, so no \<open>encrypted ckey\<close> line
  is printed, whatever \<open>ckey\<close> tags the file holds.
\<close>

theorem dumpAllKeys_without_master_key:
  assumes "fsys e (canonical e (walletPath t)) = Some (File bs)" "may_read e (walletPath t)"
    and "length bs \<le> 2147483647"
    and "occurrences ''mkey'' bs = []"
  shows "dumpAllKeys e u t = Some (Inr [''There is no Master Key in the file''])"
  using assms by (rule dump_no_master_key)

theorem dumpAllKeys_without_master_key_witness:
  "fsys (ex_env ex_wallet_ckey) (canonical (ex_env ex_wallet_ckey) (walletPath ex_dump))
     = Some (File ex_wallet_ckey)
   \<and> may_read (ex_env ex_wallet_ckey) (walletPath ex_dump)
   \<and> length ex_wallet_ckey \<le> 2147483647
   \<and> occurrences ''mkey'' ex_wallet_ckey = []
   \<and> occurrences ''ckey'' ex_wallet_ckey = [52]
   \<and> dumpAllKeys (ex_env ex_wallet_ckey) ex_uninit ex_dump
       = Some (Inr [''There is no Master Key in the file''])"
proof -
  have l: "length ex_wallet_ckey \<le> 2147483647" by (simp add: ex_lengths)
  from dumpAllKeys_without_master_key [OF ex_full_file l ex_ckey_mkey, of ex_uninit]
    ex_full_file [of ex_wallet_ckey] l
  show ?thesis by (simp only: ex_ckey_mkey ex_ckey_ckey simp_thms)
qed

text \<open>
  The claim as the specification words it fails: a wallet file with no \<open>mkey\<close> tag and
  one \<open>ckey\<close> tag at offset 52, its 123-byte window inside the file, gets no
  \<open>encrypted ckey\<close> line.
\<close>

theorem check_key_scan_without_master_key_counterexample:
  "\<not> (\<forall>e u t bs. fsys e (canonical e (walletPath t)) = Some (File bs)
        \<longrightarrow> may_read e (walletPath t)
        \<longrightarrow> length bs \<le> 2147483647
        \<longrightarrow> occurrences ''mkey'' bs = []
        \<longrightarrow> (\<exists>out. dumpAllKeys e u t = Some (Inr out)
               \<and> ''There is no Master Key in the file'' \<in> set out
               \<and> length (filter is_ckey_line out) = length (occurrences ''ckey'' bs)))"
proof
  assume a: "\<forall>e u t bs. fsys e (canonical e (walletPath t)) = Some (File bs)
        \<longrightarrow> may_read e (walletPath t)
        \<longrightarrow> length bs \<le> 2147483647
        \<longrightarrow> occurrences ''mkey'' bs = []
        \<longrightarrow> (\<exists>out. dumpAllKeys e u t = Some (Inr out)
               \<and> ''There is no Master Key in the file'' \<in> set out
               \<and> length (filter is_ckey_line out) = length (occurrences ''ckey'' bs))"
  have l: "length ex_wallet_ckey \<le> 2147483647" by (simp add: ex_lengths)
  from a ex_full_file [of ex_wallet_ckey] l ex_ckey_mkey obtain out
    where o: "dumpAllKeys (ex_env ex_wallet_ckey) ex_uninit ex_dump = Some (Inr out)"
      and n: "length (filter is_ckey_line out) = length (occurrences ''ckey'' ex_wallet_ckey)"
    by blast
  have "out = [''There is no Master Key in the file'']"
    using dump_no_master_key [OF ex_full_file l ex_ckey_mkey, of ex_uninit] o by simp
  then have "length (filter is_ckey_line out) = 0" by (simp add: is_ckey_line_def)
  with n show False by (simp add: ex_ckey_ckey)
qed

lemma dump_in_file_windows:
  assumes f: "fsys e (canonical e (walletPath t)) = Some (File bs)" "may_read e (walletPath t)"
    and l: "length bs \<le> 2147483647"
    and m: "occurrences ''mkey'' bs = pm # rest" "72 \<le> pm"
    and c: "\<forall>p\<in>set (occurrences ''ckey'' bs). 52 \<le> p"
  shows "dumpAllKeys e u t
         = Some (Inr ([''Mkey_encrypted: '' @ hexstr (take 48 (drop (pm - 72) bs)), []]
                @ map (\<lambda>p. ''encrypted ckey: '' @ hexstr (take 48 (drop (p - 52) bs)))
                      (occurrences ''ckey'' bs)))"
proof -
  have "pm \<in> set (occurrences ''mkey'' bs)" using m(1) by simp
  then have "tag_at ''mkey'' bs pm" by (simp add: tag_at_occurrence)
  then have b: "pm + 4 \<le> length bs" by (intro tag_at_bound) simp_all
  from dump_lines [OF f l m(1), of u] c obtain xs
    where d: "dumpAllKeys e u t
           = Some (Inr ([''Mkey_encrypted: '' @ tohex (mkey_window bs (u_mkey_data u) pm) 48, []]
                        @ map (\<lambda>x. ''encrypted ckey: '' @ x) xs))"
      and x: "xs = map (\<lambda>p. hexstr (take 48 (drop (p - 52) bs))) (occurrences ''ckey'' bs)"
    by blast
  show ?thesis
    unfolding d x mkey_window_in_file [OF m(2) b] by (simp add: comp_def)
qed

text \<open>
  Claim C2, as the code has it by design. Take a file of at most \<^verbatim>\<open>INT_MAX\<close> bytes in
  which no matched tag has a window that starts before the file does: the first \<open>mkey\<close>
  tag stands at offset 72 or later and every \<open>ckey\<close> tag at offset 52 or later. There
  every matched tag gets its line, also a \<open>ckey\<close> tag whose 123-byte read runs past the
  end of the file, and the 48 bytes of every line are the file's bytes from the window's
  start on, all of them inside the file: no line holds short or uninitialised data, and
  the output is a function of the file alone.
\<close>

theorem records_read_from_nonnegative_offsets:
  assumes "fsys e (canonical e (walletPath t)) = Some (File bs)" "may_read e (walletPath t)"
    and "length bs \<le> 2147483647"
    and "occurrences ''mkey'' bs = pm # rest" "72 \<le> pm"
    and "\<forall>p\<in>set (occurrences ''ckey'' bs). 52 \<le> p"
  shows "dumpAllKeys e u t
         = Some (Inr ([''Mkey_encrypted: '' @ hexstr (take 48 (drop (pm - 72) bs)), []]
                @ map (\<lambda>p. ''encrypted ckey: '' @ hexstr (take 48 (drop (p - 52) bs)))
                      (occurrences ''ckey'' bs)))
       \<and> length (take 48 (drop (pm - 72) bs)) = 48
       \<and> (\<forall>p\<in>set (occurrences ''ckey'' bs). length (take 48 (drop (p - 52) bs)) = 48)"
proof (intro conjI ballI)
  show "dumpAllKeys e u t
         = Some (Inr ([''Mkey_encrypted: '' @ hexstr (take 48 (drop (pm - 72) bs)), []]
                @ map (\<lambda>p. ''encrypted ckey: '' @ hexstr (take 48 (drop (p - 52) bs)))
                      (occurrences ''ckey'' bs)))"
    using assms by (rule dump_in_file_windows)
  have "pm \<in> set (occurrences ''mkey'' bs)" using assms(4) by simp
  then have "tag_at ''mkey'' bs pm" by (simp add: tag_at_occurrence)
  then have "pm + 4 \<le> length bs" by (intro tag_at_bound) simp_all
  with assms(5) show "length (take 48 (drop (pm - 72) bs)) = 48" by simp
next
  fix p assume p: "p \<in> set (occurrences ''ckey'' bs)"
  then have "tag_at ''ckey'' bs p" by (simp add: tag_at_occurrence)
  then have "p + 4 \<le> length bs" by (intro tag_at_bound) simp_all
  moreover have "52 \<le> p" using assms(6) p by blast
  ultimately show "length (take 48 (drop (p - 52) bs)) = 48" by simp
qed

theorem records_read_from_nonnegative_offsets_witness:
  "occurrences ''mkey'' ex_wallet_short = [72] \<and> occurrences ''ckey'' ex_wallet_short = [76]
   \<and> length ex_wallet_short = 80
   \<and> dumpAllKeys (ex_env ex_wallet_short) ex_uninit ex_dump
       = Some (Inr [''Mkey_encrypted: '' @ hexstr (take 48 (drop 0 ex_wallet_short)), [],
              ''encrypted ckey: '' @ hexstr (take 48 (drop 24 ex_wallet_short))])"
proof -
  have l: "length ex_wallet_short \<le> 2147483647" by (simp add: ex_lengths)
  have c: "\<forall>p\<in>set (occurrences ''ckey'' ex_wallet_short). 52 \<le> p"
    by (simp add: ex_short_ckey)
  from records_read_from_nonnegative_offsets
         [OF ex_full_file l ex_short_mkey _ c, of ex_uninit]
  have "dumpAllKeys (ex_env ex_wallet_short) ex_uninit ex_dump
       = Some (Inr [''Mkey_encrypted: '' @ hexstr (take 48 (drop (72 - 72) ex_wallet_short)), [],
              ''encrypted ckey: '' @ hexstr (take 48 (drop (76 - 52) ex_wallet_short))])"
    by (simp add: ex_short_ckey)
  then show ?thesis by (simp add: ex_short_mkey ex_short_ckey ex_lengths)
qed

text \<open>
  The claim as the specification words it fails: in a file of 80 bytes with \<open>mkey\<close> at
  offset 72 and \<open>ckey\<close> at offset 76, the 123 bytes from offset 24 are not all there,
  and the \<open>encrypted ckey\<close> line is printed all the same.
\<close>

theorem truncated_window_counterexample:
  "\<not> (\<forall>e u t bs out. fsys e (canonical e (walletPath t)) = Some (File bs)
        \<longrightarrow> may_read e (walletPath t)
        \<longrightarrow> length bs \<le> 2147483647
        \<longrightarrow> dumpAllKeys e u t = Some (Inr out)
        \<longrightarrow> length (filter is_ckey_line out)
            \<le> length (filter (\<lambda>p. 52 \<le> p \<and> p - 52 + 123 \<le> length bs) (occurrences ''ckey'' bs)))"
proof
  assume a: "\<forall>e u t bs out. fsys e (canonical e (walletPath t)) = Some (File bs)
        \<longrightarrow> may_read e (walletPath t)
        \<longrightarrow> length bs \<le> 2147483647
        \<longrightarrow> dumpAllKeys e u t = Some (Inr out)
        \<longrightarrow> length (filter is_ckey_line out)
            \<le> length (filter (\<lambda>p. 52 \<le> p \<and> p - 52 + 123 \<le> length bs) (occurrences ''ckey'' bs))"
  have l: "length ex_wallet_short \<le> 2147483647" by (simp add: ex_lengths)
  have c: "\<forall>p\<in>set (occurrences ''ckey'' ex_wallet_short). 52 \<le> p"
    by (simp add: ex_short_ckey)
  define out where "out = [''Mkey_encrypted: '' @ hexstr (take 48 (drop (72 - 72) ex_wallet_short)), [],
              ''encrypted ckey: '' @ hexstr (take 48 (drop (76 - 52) ex_wallet_short))]"
  have d: "dumpAllKeys (ex_env ex_wallet_short) ex_uninit ex_dump = Some (Inr out)"
    using dump_in_file_windows [OF ex_full_file l ex_short_mkey _ c, of ex_uninit]
    by (simp add: ex_short_ckey out_def)
  have "length (filter is_ckey_line out) = 1" by (simp add: out_def is_ckey_line_def)
  moreover have "length (filter is_ckey_line out)
       \<le> length (filter (\<lambda>p. 52 \<le> p \<and> p - 52 + 123 \<le> length ex_wallet_short)
                    (occurrences ''ckey'' ex_wallet_short))"
    using a ex_full_file [of ex_wallet_short] l d by blast
  ultimately show False by (simp add: ex_short_ckey ex_lengths)
qed

text \<open>
  Claim C4, as the code has it. When an \<open>mkey\<close> tag is matched and the file (of at most
  \<^verbatim>\<open>INT_MAX\<close> bytes) holds \<open>N\<close> occurrences of the four bytes \<open>ckey\<close>, each with its 123
  bytes available from offset \<open>p - 52\<close> on, the tool prints exactly \<open>N\<close>
  \<open>encrypted ckey\<close> lines, one per occurrence in ascending order of offset, each the hex
  encoding of the first 48 bytes of the 123-byte window at \<open>p - 52\<close>.
\<close>

theorem check_key_lines_after_master_key:
  assumes "fsys e (canonical e (walletPath t)) = Some (File bs)" "may_read e (walletPath t)"
    and "length bs \<le> 2147483647"
    and "occurrences ''mkey'' bs \<noteq> []"
    and "\<forall>p\<in>set (occurrences ''ckey'' bs). 52 \<le> p \<and> p - 52 + 123 \<le> length bs"
  shows "\<exists>out. dumpAllKeys e u t = Some (Inr out)
         \<and> filter is_ckey_line out
             = map (\<lambda>p. ''encrypted ckey: '' @ hexstr (take 48 (take 123 (drop (p - 52) bs))))
                   (occurrences ''ckey'' bs)
         \<and> length (filter is_ckey_line out) = length (occurrences ''ckey'' bs)
         \<and> sorted_wrt (<) (occurrences ''ckey'' bs)"
proof -
  obtain pm rest where m: "occurrences ''mkey'' bs = pm # rest"
    using assms(4) by (cases "occurrences ''mkey'' bs") auto
  have c: "\<forall>p\<in>set (occurrences ''ckey'' bs). 52 \<le> p" using assms(5) by blast
  from dump_lines [OF assms(1,2,3) m, of u] c obtain xs
    where d: "dumpAllKeys e u t
           = Some (Inr ([''Mkey_encrypted: '' @ tohex (mkey_window bs (u_mkey_data u) pm) 48, []]
                        @ map (\<lambda>x. ''encrypted ckey: '' @ x) xs))"
      and x: "xs = map (\<lambda>p. hexstr (take 48 (drop (p - 52) bs))) (occurrences ''ckey'' bs)"
    by blast
  define out where
    "out = [''Mkey_encrypted: '' @ tohex (mkey_window bs (u_mkey_data u) pm) 48, []]
           @ map (\<lambda>x. ''encrypted ckey: '' @ x) xs"
  have "filter is_ckey_line out = map (\<lambda>x. ''encrypted ckey: '' @ x) xs"
    unfolding out_def filter_append filter_ckey_lines by (simp add: is_ckey_line_def)
  then have f: "filter is_ckey_line out
             = map (\<lambda>p. ''encrypted ckey: '' @ hexstr (take 48 (take 123 (drop (p - 52) bs))))
                   (occurrences ''ckey'' bs)"
    unfolding x by (simp add: comp_def)
  have s: "sorted_wrt (<) (occurrences ''ckey'' bs)"
    unfolding occurrences_def by (rule sorted_wrt_filter) (rule sorted_wrt_upt)
  have "dumpAllKeys e u t = Some (Inr out)" using d by (simp only: out_def)
  with f s show ?thesis by (intro exI [of _ out]) simp
qed

theorem check_key_lines_after_master_key_witness:
  "occurrences ''mkey'' ex_wallet_full = [72] \<and> occurrences ''ckey'' ex_wallet_full = [76, 80]
   \<and> length ex_wallet_full = 151
   \<and> (\<exists>out. dumpAllKeys (ex_env ex_wallet_full) ex_uninit ex_dump = Some (Inr out)
        \<and> filter is_ckey_line out
            = [''encrypted ckey: '' @ hexstr (take 48 (take 123 (drop 24 ex_wallet_full))),
               ''encrypted ckey: '' @ hexstr (take 48 (take 123 (drop 28 ex_wallet_full)))])"
proof -
  have l: "length ex_wallet_full \<le> 2147483647" by (simp add: ex_lengths)
  have m: "occurrences ''mkey'' ex_wallet_full \<noteq> []" by (simp add: ex_full_mkey)
  have c: "\<forall>p\<in>set (occurrences ''ckey'' ex_wallet_full). 52 \<le> p \<and> p - 52 + 123 \<le> length ex_wallet_full"
    by (simp add: ex_full_ckey ex_lengths)
  from check_key_lines_after_master_key [OF ex_full_file l m c, of ex_uninit] obtain out
    where o: "dumpAllKeys (ex_env ex_wallet_full) ex_uninit ex_dump = Some (Inr out)"
      and f: "filter is_ckey_line out
             = map (\<lambda>p. ''encrypted ckey: '' @ hexstr (take 48 (take 123 (drop (p - 52) ex_wallet_full))))
                   (occurrences ''ckey'' ex_wallet_full)"
    by blast
  from f have "filter is_ckey_line out
            = [''encrypted ckey: '' @ hexstr (take 48 (take 123 (drop 24 ex_wallet_full))),
               ''encrypted ckey: '' @ hexstr (take 48 (take 123 (drop 28 ex_wallet_full)))]"
    by (simp add: ex_full_ckey)
  with o show ?thesis by (simp add: ex_full_mkey ex_full_ckey ex_lengths)
qed

text \<open>
  The claim as the specification words it fails: with no \<open>mkey\<close> tag in the file, the
  one well-placed \<open>ckey\<close> tag at offset 52 gets no line.
\<close>

theorem check_key_lines_counterexample:
  "\<not> (\<forall>e u t bs. fsys e (canonical e (walletPath t)) = Some (File bs)
        \<longrightarrow> may_read e (walletPath t)
        \<longrightarrow> length bs \<le> 2147483647
        \<longrightarrow> (\<forall>p\<in>set (occurrences ''ckey'' bs). 52 \<le> p \<and> p - 52 + 123 \<le> length bs)
        \<longrightarrow> (\<exists>out. dumpAllKeys e u t = Some (Inr out)
               \<and> length (filter is_ckey_line out) = length (occurrences ''ckey'' bs)))"
proof
  assume a: "\<forall>e u t bs. fsys e (canonical e (walletPath t)) = Some (File bs)
        \<longrightarrow> may_read e (walletPath t)
        \<longrightarrow> length bs \<le> 2147483647
        \<longrightarrow> (\<forall>p\<in>set (occurrences ''ckey'' bs). 52 \<le> p \<and> p - 52 + 123 \<le> length bs)
        \<longrightarrow> (\<exists>out. dumpAllKeys e u t = Some (Inr out)
               \<and> length (filter is_ckey_line out) = length (occurrences ''ckey'' bs))"
  have l: "length ex_wallet_ckey \<le> 2147483647" by (simp add: ex_lengths)
  have c: "\<forall>p\<in>set (occurrences ''ckey'' ex_wallet_ckey). 52 \<le> p \<and> p - 52 + 123 \<le> length ex_wallet_ckey"
    by (simp add: ex_ckey_ckey ex_lengths)
  from a ex_full_file [of ex_wallet_ckey] l c obtain out
    where o: "dumpAllKeys (ex_env ex_wallet_ckey) ex_uninit ex_dump = Some (Inr out)"
      and n: "length (filter is_ckey_line out) = length (occurrences ''ckey'' ex_wallet_ckey)"
    by blast
  have "out = [''There is no Master Key in the file'']"
    using dump_no_master_key [OF ex_full_file l ex_ckey_mkey, of ex_uninit] o by simp
  then have "length (filter is_ckey_line out) = 0" by (simp add: is_ckey_line_def)
  with n show False by (simp add: ex_ckey_ckey)
qed

lemma ckey_body_cursor:
  assumes w: "wallet s = \<lparr>contents = bs, pos = n + 4, eof = False\<rparr>" "cur_i s = int n"
    and n: "n + 4 \<le> length bs" "length bs \<le> 2147483647"
  shows "\<exists>t. ckey_body s = Some t
          \<and> at_cursor bs (if strncmp4 (mkey s) ''ckey'' then n + 4 else n + 1) t
          \<and> found_mkey t = found_mkey s"
proof (cases "strncmp4 (mkey s) ''ckey''")
  case False
  then show ?thesis
    using w cursor_in_range(1) [OF n]
    by (simp add: ckey_body_def fseek_set_def at_cursor_def add.commute)
next
  case True
  define f1 where "f1 = fseek_set \<lparr>contents = bs, pos = n + 4, eof = False\<rparr> (int n - 52)"
  obtain k d f2 where r: "fread (ckey_data s) 123 f1 = (k, d, f2)"
    by (cases "fread (ckey_data s) 123 f1") auto
  have c: "contents f2 = bs"
    using fread_contents [of "ckey_data s" 123 f1] r by (simp add: f1_def fseek_contents)
  have b: "ckey_body s = Some (s\<lparr>wallet := fseek_set f2 (int n + 4), ckey_data := d,
          ckey_encrypted := memcpy (ckey_encrypted s) d 48,
          cout := cout s @ [''encrypted ckey: '' @ tohex (memcpy (ckey_encrypted s) d 48) 48],
          cur_i := int n + 4\<rparr>)"
    using w True cursor_in_range(2,3,5) [OF n] r
    by (simp add: ckey_body_def Let_def f1_def add.commute)
  have "fseek_set f2 (int n + 4) = \<lparr>contents = bs, pos = n + 4, eof = False\<rparr>"
    using FILE_rewind [OF c, of "n + 4"] by simp
  then show ?thesis using True by (simp add: b at_cursor_def)
qed

lemma ckey_steps_to:
  assumes "at_cursor bs n s" "length bs \<le> 2147483647" "n + k + 3 \<le> length bs"
    and "\<forall>p. n \<le> p \<and> p < n + k \<longrightarrow> \<not> tag_at ''ckey'' bs p"
  shows "\<exists>t. ckey_steps k s = Some t \<and> at_cursor bs (n + k) t \<and> found_mkey t = found_mkey s"
  using assms(1,3,4)
proof (induction k arbitrary: n s)
  case 0
  then show ?case by simp
next
  case (Suc k)
  have b: "n + 4 \<le> length bs" using Suc.prems(2) by simp
  define s1 where "s1 = s\<lparr>wallet := \<lparr>contents = bs, pos = n + 4, eof = False\<rparr>,
             mkey := (\<lambda>j. if j < 4 then bs ! (n + j) else mkey s j)\<rparr>"
  have c: "ckey_cond s = (True, s1)"
    using ckey_cond_at [OF Suc.prems(1) b] by (simp add: s1_def)
  have w: "wallet s1 = \<lparr>contents = bs, pos = n + 4, eof = False\<rparr>" "cur_i s1 = int n"
    using Suc.prems(1) by (simp_all add: s1_def at_cursor_def)
  have "\<not> tag_at ''ckey'' bs n" using Suc.prems(3) by simp
  then have m: "\<not> strncmp4 (mkey s1) ''ckey''"
    using strncmp4_tag [OF b] by (simp add: s1_def)
  from ckey_body_cursor [OF w b assms(2)] m obtain t1
    where t1: "ckey_body s1 = Some t1" "at_cursor bs (Suc n) t1" "found_mkey t1 = found_mkey s1"
    by auto
  have "Suc n + k + 3 \<le> length bs" using Suc.prems(2) by simp
  moreover have "\<forall>p. Suc n \<le> p \<and> p < Suc n + k \<longrightarrow> \<not> tag_at ''ckey'' bs p"
    using Suc.prems(3) by simp
  ultimately obtain t where t: "ckey_steps k t1 = Some t" "at_cursor bs (Suc n + k) t"
      "found_mkey t = found_mkey t1"
    using Suc.IH [OF t1(2)] by blast
  have "ckey_steps (Suc k) s = Some t" using c t1(1) t(1) by simp
  then show ?case using t(2,3) t1(3) by (simp add: s1_def)
qed

text \<open>
  Claim C5. In a file of at most \<^verbatim>\<open>INT_MAX\<close> bytes, an iteration of the check-key scan
  that starts with the stream at the cursor \<open>n\<close> compares the four bytes at \<open>n\<close> with
  \<open>ckey\<close>, and leaves the stream at the new cursor: \<open>n + 1\<close> when they differ,
  \<open>n + 3 + 1 = n + 4\<close> when they match. The iteration runs as long as four bytes are left
  at the cursor. So the positions tested are one byte apart, except that the one after a
  match at \<open>n\<close> is \<open>n + 4\<close>.
\<close>

theorem check_key_scan_stride:
  assumes "at_cursor bs n s" "length bs \<le> 2147483647"
  shows "(n + 4 \<le> length bs \<longrightarrow>
            (\<exists>s' t. ckey_cond s = (True, s')
                 \<and> strncmp4 (mkey s') ''ckey'' = tag_at ''ckey'' bs n
                 \<and> ckey_body s' = Some t
                 \<and> cur_i t = cur_i s + (if tag_at ''ckey'' bs n then 3 else 0) + 1
                 \<and> at_cursor bs (if tag_at ''ckey'' bs n then n + 4 else n + 1) t
                 \<and> ckey_loop s = ckey_loop t))
       \<and> (\<not> n + 4 \<le> length bs \<longrightarrow> \<not> fst (ckey_cond s))"
proof (intro conjI impI)
  assume b: "n + 4 \<le> length bs"
  define s1 where "s1 = s\<lparr>wallet := \<lparr>contents = bs, pos = n + 4, eof = False\<rparr>,
             mkey := (\<lambda>j. if j < 4 then bs ! (n + j) else mkey s j)\<rparr>"
  have c: "ckey_cond s = (True, s1)"
    using ckey_cond_at [OF assms(1) b] by (simp add: s1_def)
  have w: "wallet s1 = \<lparr>contents = bs, pos = n + 4, eof = False\<rparr>" "cur_i s1 = int n"
    using assms(1) by (simp_all add: s1_def at_cursor_def)
  have t: "strncmp4 (mkey s1) ''ckey'' = tag_at ''ckey'' bs n"
    using strncmp4_tag [OF b] by (simp add: s1_def)
  from ckey_body_cursor [OF w b assms(2)] obtain t1
    where t1: "ckey_body s1 = Some t1"
      and a: "at_cursor bs (if tag_at ''ckey'' bs n then n + 4 else n + 1) t1"
    unfolding t by blast
  have i: "cur_i t1 = cur_i s + (if tag_at ''ckey'' bs n then 3 else 0) + 1"
    using a assms(1) by (simp add: at_cursor_def)
  have l: "ckey_loop s = ckey_loop t1"
    by (subst ckey_loop.simps) (simp add: c t1)
  show "\<exists>s' t. ckey_cond s = (True, s')
                 \<and> strncmp4 (mkey s') ''ckey'' = tag_at ''ckey'' bs n
                 \<and> ckey_body s' = Some t
                 \<and> cur_i t = cur_i s + (if tag_at ''ckey'' bs n then 3 else 0) + 1
                 \<and> at_cursor bs (if tag_at ''ckey'' bs n then n + 4 else n + 1) t
                 \<and> ckey_loop s = ckey_loop t"
    using c t t1 i a l by blast
next
  assume "\<not> n + 4 \<le> length bs"
  then show "\<not> fst (ckey_cond s)" using ckey_cond_end(1) [OF assms(1)] by simp
qed

text \<open>
  The theorem at a state the program reaches: the first scan of the example wallet finds
  the master key, and the second scan, after 76 iterations from its start, stands at
  offset 76, where the first \<open>ckey\<close> tag is. The next iteration moves the cursor to 80.
\<close>

theorem check_key_scan_stride_witness:
  "\<exists>s1 s. mkey_loop (scan_start ex_wallet_full ex_uninit) = Some s1 \<and> found_mkey s1
     \<and> ckey_steps 76 (s1\<lparr>wallet := fseek_set (wallet s1) 0, cur_i := 0\<rparr>) = Some s
     \<and> at_cursor ex_wallet_full 76 s \<and> length ex_wallet_full \<le> 2147483647
     \<and> 76 + 4 \<le> length ex_wallet_full \<and> tag_at ''ckey'' ex_wallet_full 76
     \<and> (\<exists>s' t. ckey_cond s = (True, s') \<and> ckey_body s' = Some t \<and> cur_i t = 80
           \<and> at_cursor ex_wallet_full 80 t)"
proof -
  have l: "length ex_wallet_full \<le> 2147483647" and l4: "76 + 4 \<le> length ex_wallet_full"
    by (simp_all add: ex_lengths)
  have a0: "at_cursor ex_wallet_full 0 (scan_start ex_wallet_full ex_uninit)"
    "\<not> found_mkey (scan_start ex_wallet_full ex_uninit)"
    by (simp_all add: scan_start_def at_cursor_def)
  from mkey_loop_at [OF a0 l] obtain s1
    where s1: "mkey_loop (scan_start ex_wallet_full ex_uninit) = Some s1" "found_mkey s1"
      "contents (wallet s1) = ex_wallet_full"
    by (auto simp: find_occurrences ex_full_mkey)
  define s2 where "s2 = s1\<lparr>wallet := fseek_set (wallet s1) 0, cur_i := 0\<rparr>"
  have "fseek_set (wallet s1) 0 = \<lparr>contents = ex_wallet_full, pos = 0, eof = False\<rparr>"
    using FILE_rewind [of "wallet s1" ex_wallet_full 0] s1(3) by simp
  then have a2: "at_cursor ex_wallet_full 0 s2" by (simp add: s2_def at_cursor_def)
  have n: "\<forall>p. 0 \<le> p \<and> p < 0 + 76 \<longrightarrow> \<not> tag_at ''ckey'' ex_wallet_full p"
    by (simp add: tag_at_occurrence ex_full_ckey)
  have "0 + 76 + 3 \<le> length ex_wallet_full" by (simp add: ex_lengths)
  from ckey_steps_to [OF a2 l this n] obtain s
    where s: "ckey_steps 76 s2 = Some s" "at_cursor ex_wallet_full 76 s"
    by auto
  have t: "tag_at ''ckey'' ex_wallet_full 76" by (simp add: tag_at_occurrence ex_full_ckey)
  have i: "cur_i s = 76" using s(2) by (simp add: at_cursor_def)
  from check_key_scan_stride [OF s(2) l] l4 t i
  have "\<exists>s' t. ckey_cond s = (True, s') \<and> ckey_body s' = Some t \<and> cur_i t = 80
           \<and> at_cursor ex_wallet_full 80 t"
    by auto
  with s1(1,2) s l l4 t show ?thesis unfolding s2_def by blast
qed

text \<open>
  Claim C7. In every run of \<open>dumpAllKeys\<close> on a wallet file that opens (a file of at
  most \<^verbatim>\<open>INT_MAX\<close> bytes), the lines that begin with \<open>Mkey_encrypted: \<close> are: none when the
  file has no \<open>mkey\<close> tag, and otherwise exactly one, printed from the buffer read for the
  first (lowest-offset) tag. Once a tag has been found the condition of the first loop is
  false, so no later position is tested and no later \<open>mkey\<close> tag is reported.
\<close>

theorem single_master_key_line:
  assumes "fsys e (canonical e (walletPath t)) = Some (File bs)" "may_read e (walletPath t)"
    and "length bs \<le> 2147483647"
  shows "\<exists>out. dumpAllKeys e u t = Some (Inr out)
         \<and> filter is_mkey_line out
             = (case occurrences ''mkey'' bs of
                  [] \<Rightarrow> []
                | p # _ \<Rightarrow> [''Mkey_encrypted: '' @ tohex (mkey_window bs (u_mkey_data u) p) 48])
         \<and> length (filter is_mkey_line out) \<le> 1
         \<and> (\<forall>s. found_mkey s \<longrightarrow> \<not> fst (mkey_cond s))"
proof -
  have stop: "\<forall>s. found_mkey s \<longrightarrow> \<not> fst (mkey_cond s)"
    by (simp add: mkey_cond_def split: prod.splits)
  show ?thesis
  proof (cases "occurrences ''mkey'' bs")
    case Nil
    from dump_no_master_key [OF assms Nil, of u] stop show ?thesis
      by (simp add: Nil is_mkey_line_def)
  next
    case (Cons pm rest)
    from dump_lines [OF assms Cons, of u] obtain xs
      where d: "dumpAllKeys e u t
           = Some (Inr ([''Mkey_encrypted: '' @ tohex (mkey_window bs (u_mkey_data u) pm) 48, []]
                        @ map (\<lambda>x. ''encrypted ckey: '' @ x) xs))"
      by blast
    define out where
      "out = [''Mkey_encrypted: '' @ tohex (mkey_window bs (u_mkey_data u) pm) 48, []]
             @ map (\<lambda>x. ''encrypted ckey: '' @ x) xs"
    have f: "filter is_mkey_line out
               = [''Mkey_encrypted: '' @ tohex (mkey_window bs (u_mkey_data u) pm) 48]"
      unfolding out_def filter_append filter_mkey_lines by (simp add: is_mkey_line_def)
    have "dumpAllKeys e u t = Some (Inr out)" using d by (simp only: out_def)
    with f stop show ?thesis by (intro exI [of _ out]) (simp add: Cons)
  qed
qed

lemma ex_two_mkeys: "occurrences ''mkey'' ex_wallet_two_mkeys = [72, 76]"
  unfolding occurrences_scan by code_simp

theorem single_master_key_line_witness:
  "occurrences ''mkey'' ex_wallet_two_mkeys = [72, 76]
   \<and> length ex_wallet_two_mkeys \<le> 2147483647
   \<and> (\<exists>out. dumpAllKeys (ex_env ex_wallet_two_mkeys) ex_uninit ex_dump = Some (Inr out)
         \<and> filter is_mkey_line out
             = [''Mkey_encrypted: '' @ hexstr (take 48 ex_wallet_two_mkeys)])"
proof -
  have l: "72 + 4 \<le> length ex_wallet_two_mkeys" by (simp add: ex_lengths)
  have b: "length ex_wallet_two_mkeys \<le> 2147483647" by (simp add: ex_lengths)
  from single_master_key_line [OF ex_full_file b, of ex_uninit] obtain out
    where o: "dumpAllKeys (ex_env ex_wallet_two_mkeys) ex_uninit ex_dump = Some (Inr out)"
      and f: "filter is_mkey_line out
             = (case occurrences ''mkey'' ex_wallet_two_mkeys of
                  [] \<Rightarrow> []
                | p # _ \<Rightarrow> [''Mkey_encrypted: ''
                              @ tohex (mkey_window ex_wallet_two_mkeys (u_mkey_data ex_uninit) p) 48])"
    by blast
  have "filter is_mkey_line out = [''Mkey_encrypted: '' @ hexstr (take 48 ex_wallet_two_mkeys)]"
    using f mkey_window_in_file [OF _ l, of "u_mkey_data ex_uninit"]
    by (simp add: ex_two_mkeys)
  with o b show ?thesis by (simp add: ex_two_mkeys)
qed

section \<open>The command line\<close>

lemma digit_range: "(CHR ''0'' \<le> c \<and> c \<le> CHR ''9'') \<longleftrightarrow> c \<in> set ''0123456789''"
proof
  assume "CHR ''0'' \<le> c \<and> c \<le> CHR ''9''"
  then have "48 \<le> (of_char c :: nat) \<and> (of_char c :: nat) \<le> 57"
    by (simp add: less_eq_char_def)
  then have "(of_char c :: nat) \<in> {48, 49, 50, 51, 52, 53, 54, 55, 56, 57}"
    by (simp only: insert_iff empty_iff) arith
  then have "(of_char c :: nat) \<in> of_char ` set ''0123456789''" by simp
  then obtain d where d: "d \<in> set ''0123456789''" "(of_char c :: nat) = of_char d" by blast
  from d(2) have "c = d" by (simp only: of_char_eq_iff)
  with d(1) show "c \<in> set ''0123456789''" by simp
next
  assume "c \<in> set ''0123456789''"
  then show "CHR ''0'' \<le> c \<and> c \<le> CHR ''9''" by (auto simp: less_eq_char_def)
qed

lemma lower_range: "(CHR ''a'' \<le> c \<and> c \<le> CHR ''f'') \<longleftrightarrow> c \<in> set ''abcdef''"
proof
  assume "CHR ''a'' \<le> c \<and> c \<le> CHR ''f''"
  then have "97 \<le> (of_char c :: nat) \<and> (of_char c :: nat) \<le> 102"
    by (simp add: less_eq_char_def)
  then have "(of_char c :: nat) \<in> {97, 98, 99, 100, 101, 102}"
    by (simp only: insert_iff empty_iff) arith
  then have "(of_char c :: nat) \<in> of_char ` set ''abcdef''" by simp
  then obtain d where d: "d \<in> set ''abcdef''" "(of_char c :: nat) = of_char d" by blast
  from d(2) have "c = d" by (simp only: of_char_eq_iff)
  with d(1) show "c \<in> set ''abcdef''" by simp
next
  assume "c \<in> set ''abcdef''"
  then show "CHR ''a'' \<le> c \<and> c \<le> CHR ''f''" by (auto simp: less_eq_char_def)
qed

lemma upper_range: "(CHR ''A'' \<le> c \<and> c \<le> CHR ''F'') \<longleftrightarrow> c \<in> set ''ABCDEF''"
proof
  assume "CHR ''A'' \<le> c \<and> c \<le> CHR ''F''"
  then have "65 \<le> (of_char c :: nat) \<and> (of_char c :: nat) \<le> 70"
    by (simp add: less_eq_char_def)
  then have "(of_char c :: nat) \<in> {65, 66, 67, 68, 69, 70}"
    by (simp only: insert_iff empty_iff) arith
  then have "(of_char c :: nat) \<in> of_char ` set ''ABCDEF''" by simp
  then obtain d where d: "d \<in> set ''ABCDEF''" "(of_char c :: nat) = of_char d" by blast
  from d(2) have "c = d" by (simp only: of_char_eq_iff)
  with d(1) show "c \<in> set ''ABCDEF''" by simp
next
  assume "c \<in> set ''ABCDEF''"
  then show "CHR ''A'' \<le> c \<and> c \<le> CHR ''F''" by (auto simp: less_eq_char_def)
qed

lemma isValidHexString_iff:
  "isValidHexString k \<longleftrightarrow> length k = 10 \<and> set k \<subseteq> set ''0123456789abcdefABCDEF''"
proof -
  define H where "H = set ''0123456789abcdefABCDEF''"
  have "''0123456789abcdefABCDEF'' = ''0123456789'' @ ''abcdef'' @ ''ABCDEF''" by simp
  then have H: "H = set ''0123456789'' \<union> (set ''abcdef'' \<union> set ''ABCDEF'')"
    unfolding H_def by (simp only: set_append)
  have r: "((CHR ''0'' \<le> c \<and> c \<le> CHR ''9'') \<or> (CHR ''a'' \<le> c \<and> c \<le> CHR ''f'')
          \<or> (CHR ''A'' \<le> c \<and> c \<le> CHR ''F'')) \<longleftrightarrow> c \<in> H" for c
    by (simp only: digit_range lower_range upper_range H Un_iff)
  have "isValidHexString k \<longleftrightarrow> length k = 10 \<and> (\<forall>c\<in>set k. c \<in> H)"
    unfolding isValidHexString_def r list_all_iff by simp
  then have "isValidHexString k \<longleftrightarrow> length k = 10 \<and> set k \<subseteq> H"
    by (simp only: subset_eq)
  then show ?thesis unfolding H_def .
qed

lemma parse_key_option:
  "parseArgs_loop t (''--KEY'' # k # rest)
   = (if isValidHexString k then parseArgs_loop (t\<lparr>hexKey := k\<rparr>) rest
      else Inl ''Invalid KEY format. Must be a 5-byte hexadecimal string'')"
  by simp

lemma main_parse_error:
  "parseArgs new_tool argv = Inl m
   \<Longrightarrow> main e u argv
       = Some \<lparr>stdout = [], stderr = [''Error: '' @ m], exit_code = 1, env_after = e\<rparr>"
  by (simp add: main_def)

lemma valid_examples:
  "isValidHexString ''0123456789''" "isValidHexString ''ABCDEFabcd''"
  "\<not> isValidHexString ''0x12345678''" "\<not> isValidHexString ''012345678''"
  by (simp_all add: isValidHexString_iff)

text \<open>
  Claim C10. \<open>isValidHexString\<close> accepts exactly the strings of 10 characters that are
  all among \<open>0-9\<close>, \<open>a-f\<close>, \<open>A-F\<close>. Wherever the argument loop reads the option
  \<open>--KEY\<close>, it goes on with the key stored if the value is accepted and throws
  \<open>Invalid KEY format\<close> otherwise; a run whose arguments start with such a pair ends with
  that error, exit code 1, nothing printed on the standard output and the file system as it
  was. Uppercase digits are accepted; a \<open>0x\<close> prefix and a string of 9 digits are not.
\<close>

theorem key_argument_accepted_iff_ten_hex_digits:
  "(isValidHexString k \<longleftrightarrow> length k = 10 \<and> set k \<subseteq> set ''0123456789abcdefABCDEF'')
   \<and> parseArgs_loop t (''--KEY'' # k # rest)
       = (if isValidHexString k then parseArgs_loop (t\<lparr>hexKey := k\<rparr>) rest
          else Inl ''Invalid KEY format. Must be a 5-byte hexadecimal string'')
   \<and> (\<not> isValidHexString k \<longrightarrow>
        main e u (prog # ''--KEY'' # k # rest)
        = Some \<lparr>stdout = [],
           stderr = [''Error: Invalid KEY format. Must be a 5-byte hexadecimal string''],
           exit_code = 1, env_after = e\<rparr>)
   \<and> isValidHexString ''ABCDEFabcd'' \<and> \<not> isValidHexString ''0x12345678''
   \<and> \<not> isValidHexString ''012345678''"
proof (intro conjI impI)
  show "isValidHexString k \<longleftrightarrow> length k = 10 \<and> set k \<subseteq> set ''0123456789abcdefABCDEF''"
    by (rule isValidHexString_iff)
  show "parseArgs_loop t (''--KEY'' # k # rest)
       = (if isValidHexString k then parseArgs_loop (t\<lparr>hexKey := k\<rparr>) rest
          else Inl ''Invalid KEY format. Must be a 5-byte hexadecimal string'')"
    by (rule parse_key_option)
  show "isValidHexString ''ABCDEFabcd''" "\<not> isValidHexString ''0x12345678''"
    "\<not> isValidHexString ''012345678''"
    by (rule valid_examples)+
next
  assume "\<not> isValidHexString k"
  then have "parseArgs new_tool (prog # ''--KEY'' # k # rest)
             = Inl ''Invalid KEY format. Must be a 5-byte hexadecimal string''"
    by (simp add: parseArgs_def)
  from main_parse_error [OF this, of e u]
  show "main e u (prog # ''--KEY'' # k # rest)
        = Some \<lparr>stdout = [],
           stderr = [''Error: Invalid KEY format. Must be a 5-byte hexadecimal string''],
           exit_code = 1, env_after = e\<rparr>"
    by simp
qed

theorem key_argument_accepted_iff_ten_hex_digits_witness:
  "\<not> isValidHexString ''0x12345678''
   \<and> main (ex_env [1, 2, 3]) ex_uninit [''wallet-tool'', ''--KEY'', ''0x12345678'', ''--remove-pass'']
       = Some \<lparr>stdout = [],
          stderr = [''Error: Invalid KEY format. Must be a 5-byte hexadecimal string''],
          exit_code = 1, env_after = ex_env [1, 2, 3]\<rparr>"
  using key_argument_accepted_iff_ten_hex_digits
          [of "''0x12345678''" new_tool "[''--remove-pass'']" "ex_env [1, 2, 3]" ex_uninit
              "''wallet-tool''"]
  by blast

lemma validate_same: "same_but_key a b \<Longrightarrow> validateOptions a = validateOptions b"
  by (auto simp: validateOptions_def same_but_key_def)

lemma parse_same:
  "same_but_key a b \<Longrightarrow>
     rel_sum (=) (\<lambda>(o1, t1) (o2, t2). o1 = o2 \<and> same_but_key t1 t2)
       (parseArgs_loop a args) (parseArgs_loop b args)"
proof (induction a args arbitrary: b rule: parseArgs_loop.induct)
  case (1 t)
  then show ?case using validate_same [OF 1] by (simp split: sum.splits)
next
  case (2 t arg rest)
  have k: "same_but_key (t\<lparr>walletPath := v\<rparr>) (b\<lparr>walletPath := v\<rparr>)"
      "same_but_key (t\<lparr>dbType := v\<rparr>) (b\<lparr>dbType := v\<rparr>)"
      "v \<noteq> [] \<Longrightarrow> same_but_key (t\<lparr>hexKey := v\<rparr>) (b\<lparr>hexKey := v\<rparr>)"
      "same_but_key (t\<lparr>removePass := True\<rparr>) (b\<lparr>removePass := True\<rparr>)"
      "same_but_key (t\<lparr>dumpKeys := True\<rparr>) (b\<lparr>dumpKeys := True\<rparr>)" for v
    using "2.prems" by (simp_all add: same_but_key_def)
  have v: "isValidHexString v \<Longrightarrow> v \<noteq> []" for v by (auto simp: isValidHexString_def)
  show ?case
    using "2.IH" "2.prems" k v
    by (cases rest) (simp_all add: Let_def)
qed

lemma dumpAllKeys_path_only:
  "walletPath a = walletPath b \<Longrightarrow> dumpAllKeys e u a = dumpAllKeys e u b"
  unfolding dumpAllKeys_def by (simp cong: option.case_cong)

lemma copy_wallet_path_only:
  "walletPath a = walletPath b \<Longrightarrow> copy_wallet e a d = copy_wallet e b d"
  unfolding copy_wallet_def by (simp cong: if_cong)

lemma removePassword_path_only:
  "walletPath a = walletPath b \<Longrightarrow> removePassword e a = removePassword e b"
  unfolding removePassword_def
  by (simp add: copy_wallet_path_only [of a b] cong: if_cong sum.case_cong bool.case_cong)

lemma execute_same: "same_but_key a b \<Longrightarrow> execute e u a = execute e u b"
  using dumpAllKeys_path_only [of a b e u] removePassword_path_only [of a b e]
  by (simp add: execute_def same_but_key_def)

lemma key_runs_related:
  assumes "isValidHexString k1" "isValidHexString k2"
  shows "rel_sum (=) (\<lambda>(o1, t1) (o2, t2). o1 = o2 \<and> same_but_key t1 t2)
           (parseArgs_loop t (''--KEY'' # k1 # rest)) (parseArgs_loop t (''--KEY'' # k2 # rest))"
proof -
  have "k1 \<noteq> []" "k2 \<noteq> []" using assms by (auto simp: isValidHexString_def)
  then have "same_but_key (t\<lparr>hexKey := k1\<rparr>) (t\<lparr>hexKey := k2\<rparr>)"
    by (simp add: same_but_key_def)
  from parse_same [OF this, of rest] assms show ?thesis by (simp add: parse_key_option)
qed

text \<open>
  Claim C9. \<open>removePassword\<close> does not read the key: run on two tools that differ in
  \<open>hexKey\<close> only, it gives the same message and the same file system, and so does
  \<open>execute\<close>. For two keys that pass the validation, wherever the argument loop reads the
  option \<open>--KEY\<close>, the two parses end in the same error, or print the same and leave tools
  on which \<open>execute\<close> does the same; two runs of the program whose arguments differ in
  that key only are equal in output, error stream, exit code and resulting file system.
\<close>

theorem removal_does_not_depend_on_key:
  assumes "isValidHexString k1" "isValidHexString k2"
  shows "removePassword e (t\<lparr>hexKey := k1\<rparr>) = removePassword e (t\<lparr>hexKey := k2\<rparr>)
       \<and> execute e u (t\<lparr>hexKey := k1\<rparr>) = execute e u (t\<lparr>hexKey := k2\<rparr>)
       \<and> (case parseArgs_loop t (''--KEY'' # k1 # rest) of
            Inl m \<Rightarrow> parseArgs_loop t (''--KEY'' # k2 # rest) = Inl m
          | Inr (out, t1) \<Rightarrow>
              (\<exists>t2. parseArgs_loop t (''--KEY'' # k2 # rest) = Inr (out, t2)
                    \<and> execute e u t1 = execute e u t2))
       \<and> main e u (prog # ''--KEY'' # k1 # rest) = main e u (prog # ''--KEY'' # k2 # rest)"
proof (intro conjI)
  show "removePassword e (t\<lparr>hexKey := k1\<rparr>) = removePassword e (t\<lparr>hexKey := k2\<rparr>)"
    by (rule removePassword_path_only) simp
  have "k1 \<noteq> []" "k2 \<noteq> []" using assms by (auto simp: isValidHexString_def)
  then have "same_but_key (t\<lparr>hexKey := k1\<rparr>) (t\<lparr>hexKey := k2\<rparr>)"
    by (simp add: same_but_key_def)
  then show "execute e u (t\<lparr>hexKey := k1\<rparr>) = execute e u (t\<lparr>hexKey := k2\<rparr>)"
    by (rule execute_same)
  note r = key_runs_related [OF assms]
  show "case parseArgs_loop t (''--KEY'' # k1 # rest) of
            Inl m \<Rightarrow> parseArgs_loop t (''--KEY'' # k2 # rest) = Inl m
          | Inr (out, t1) \<Rightarrow>
              (\<exists>t2. parseArgs_loop t (''--KEY'' # k2 # rest) = Inr (out, t2)
                    \<and> execute e u t1 = execute e u t2)"
    using r [of t rest]
    by (cases "parseArgs_loop t (''--KEY'' # k1 # rest)";
        cases "parseArgs_loop t (''--KEY'' # k2 # rest)")
       (auto simp: execute_same)
  show "main e u (prog # ''--KEY'' # k1 # rest) = main e u (prog # ''--KEY'' # k2 # rest)"
    using r [of new_tool rest]
    by (cases "parseArgs_loop new_tool (''--KEY'' # k1 # rest)";
        cases "parseArgs_loop new_tool (''--KEY'' # k2 # rest)")
       (auto simp: main_def parseArgs_def execute_same)
qed

theorem removal_does_not_depend_on_key_witness:
  "isValidHexString ''0123456789'' \<and> isValidHexString ''ABCDEFabcd''
   \<and> main (ex_env [1, 2, 3]) ex_uninit
        [''wallet-tool'', ''--KEY'', ''0123456789'', ''--wallet'', ''/w'', ''--type'', ''SQLite'',
         ''--remove-pass'']
     = main (ex_env [1, 2, 3]) ex_uninit
        [''wallet-tool'', ''--KEY'', ''ABCDEFabcd'', ''--wallet'', ''/w'', ''--type'', ''SQLite'',
         ''--remove-pass'']"
  using removal_does_not_depend_on_key [OF valid_examples(1,2)] valid_examples(1,2)
  by blast

section \<open>Password removal\<close>

lemma ex_remove_parse:
  "parseArgs new_tool (ex_remove_argv ''0123456789'')
   = Inr ([], \<lparr>walletPath = ''/w'', dbType = ''SQLite'', hexKey = ''0123456789'',
               removePass = True, dumpKeys = False\<rparr>)"
  by (simp add: parseArgs_def ex_remove_argv_def validateOptions_def new_tool_def valid_examples)

text \<open>
  Claim C3 at a source file of 0 bytes. The wallet \<open>/w\<close> exists, is readable and empty;
  \<open>HOME\<close> is set, the Desktop directory exists and the destination may be written. The
  destination is created empty, but the run ends with an error and exit code 1:
  \<^verbatim>\<open>dst << src.rdbuf()\<close> inserts no character, which sets \<^verbatim>\<open>failbit\<close>, and the test
  \<^verbatim>\<open>!dst.good()\<close> throws.
\<close>

theorem removePassword_fails_on_empty_wallet:
  "fsys (ex_env []) (canonical (ex_env []) ''/w'') = Some (File [])
   \<and> may_read (ex_env []) ''/w''
   \<and> (\<exists>r. main (ex_env []) ex_uninit (ex_remove_argv ''0123456789'') = Some r
        \<and> stdout r = []
        \<and> stderr r
            = [''Error: Failed to process wallet file: Error occurred while writing destination file'']
        \<and> exit_code r = 1
        \<and> fsys (env_after r) (canonical (ex_env []) ''/home/u/Desktop/wallet.dat'')
            = Some (File []))"
proof -
  have r: "removePassword (ex_env [])
             \<lparr>walletPath = ''/w'', dbType = ''SQLite'', hexKey = ''0123456789'',
              removePass = True, dumpKeys = False\<rparr>
           = ((ex_env [])\<lparr>fsys := (fsys (ex_env []))(''/home/u/Desktop/wallet.dat'' \<mapsto> File [])\<rparr>,
              Inl ''Failed to process wallet file: Error occurred while writing destination file'')"
    by (simp add: removePassword_def copy_wallet_def getDesktopPath_def fs_exists_def
        path_append_def ex_env_def Let_def)
  show ?thesis
    by (simp add: main_def ex_remove_parse execute_def r) (simp add: ex_env_def)
qed

lemma ex_full_disk_run:
  "removePassword ((ex_env [1, 2, 3])\<lparr>write_limit := Some 0\<rparr>)
     \<lparr>walletPath = ''/w'', dbType = ''SQLite'', hexKey = ''0123456789'',
      removePass = True, dumpKeys = False\<rparr>
   = (((ex_env [1, 2, 3])\<lparr>write_limit := Some 0\<rparr>)
        \<lparr>fsys := (fsys (ex_env [1, 2, 3]))(''/home/u/Desktop/wallet.dat'' \<mapsto> File [])\<rparr>,
      Inr [''The new wallet.dat file with the password removed was saved to: ''
           @ ''/home/u/Desktop/wallet.dat''])"
  by (simp add: removePassword_def copy_wallet_def getDesktopPath_def fs_exists_def
      path_append_def ex_env_def Let_def)

text \<open>
  Claim C8 at a destination error. The wallet \<open>/w\<close> has the three bytes \<open>1, 2, 3\<close>; the
  destination can be created but takes no byte (\<open>write_limit\<close> is 0, a full disk). The
  three bytes inserted by \<^verbatim>\<open>dst << src.rdbuf()\<close> are all in the buffer of \<open>dst\<close> when
  \<^verbatim>\<open>dst.good()\<close> is tested, so the test passes: the run prints the confirmation, writes
  nothing on the error stream and ends with exit code 0, and the destination is left
  empty when the buffer is written out.
\<close>

theorem destination_write_error_reported_as_success:
  "write_limit ((ex_env [1, 2, 3])\<lparr>write_limit := Some 0\<rparr>) = Some 0
   \<and> buffered ((ex_env [1, 2, 3])\<lparr>write_limit := Some 0\<rparr>) 3 = 3
   \<and> fsys ((ex_env [1, 2, 3])\<lparr>write_limit := Some 0\<rparr>) ''/w'' = Some (File [1, 2, 3])
   \<and> (\<exists>r. main ((ex_env [1, 2, 3])\<lparr>write_limit := Some 0\<rparr>) ex_uninit
             (ex_remove_argv ''0123456789'') = Some r
        \<and> stdout r = [''The new wallet.dat file with the password removed was saved to: ''
                       @ ''/home/u/Desktop/wallet.dat'']
        \<and> stderr r = []
        \<and> exit_code r = 0
        \<and> fsys (env_after r) ''/home/u/Desktop/wallet.dat'' = Some (File []))"
proof -
  have "write_limit ((ex_env [1, 2, 3])\<lparr>write_limit := Some 0\<rparr>) = Some 0"
    "buffered ((ex_env [1, 2, 3])\<lparr>write_limit := Some 0\<rparr>) 3 = 3"
    "fsys ((ex_env [1, 2, 3])\<lparr>write_limit := Some 0\<rparr>) ''/w'' = Some (File [1, 2, 3])"
    by (simp_all add: ex_env_def)
  moreover have "\<exists>r. main ((ex_env [1, 2, 3])\<lparr>write_limit := Some 0\<rparr>) ex_uninit
             (ex_remove_argv ''0123456789'') = Some r
        \<and> stdout r = [''The new wallet.dat file with the password removed was saved to: ''
                       @ ''/home/u/Desktop/wallet.dat'']
        \<and> stderr r = []
        \<and> exit_code r = 0
        \<and> fsys (env_after r) ''/home/u/Desktop/wallet.dat'' = Some (File [])"
    by (simp add: main_def ex_remove_parse execute_def ex_full_disk_run)
  ultimately show ?thesis by blast
qed

text \<open>
  For a source of at least one byte the copy is as the specification says, in an
  environment where nothing else fails: the status of the paths can be read, \<open>HOME\<close> is
  set, the Desktop directory exists or can be created, the source may be read, and the
  destination may be written in full and is a file other than the source and than the
  Desktop directory.
\<close>

theorem removePassword_copies_nonempty_wallet:
  assumes "fsys e (canonical e (walletPath t)) = Some (File bs)" "may_read e (walletPath t)"
    and "bs \<noteq> []" and "home e = Some h"
    and "desk = path_append h ''Desktop''" "dest = path_append desk ''wallet.dat''"
    and "stat_error e (walletPath t) = None" "stat_error e desk = None"
    and "fsys e (canonical e desk) \<noteq> None \<or> mkdir_error e desk = None"
    and "may_write e dest" "fsys e (canonical e dest) \<noteq> Some Dir" "write_limit e = None"
    and "canonical e (walletPath t) \<noteq> canonical e dest"
    and "canonical e desk \<noteq> canonical e dest"
  shows "\<exists>e'. removePassword e t
               = (e', Inr [''The new wallet.dat file with the password removed was saved to: '' @ dest])
             \<and> fsys e' (canonical e dest) = Some (File bs)
             \<and> fsys e' (canonical e (walletPath t)) = Some (File bs)"
proof -
  define e1 where "e1 = (if fsys e (canonical e desk) \<noteq> None then e
                         else e\<lparr>fsys := (fsys e)(canonical e desk \<mapsto> Dir)\<rparr>)"
  have c: "(if \<not> (fsys e (canonical e desk) \<noteq> None) then create_directories e desk else Inr e)
           = Inr e1"
    using assms(9) by (auto simp: e1_def create_directories_def)
  have k: "canonical e1 = canonical e" "may_read e1 = may_read e" "may_write e1 = may_write e"
    "write_limit e1 = write_limit e" "buffered e1 = buffered e"
    by (simp_all add: e1_def)
  have s: "fsys e1 (canonical e (walletPath t)) = Some (File bs)"
    "fsys e1 (canonical e dest) \<noteq> Some Dir"
    using assms(1,11,14) by (auto simp: e1_def)
  define e2 where "e2 = e1\<lparr>fsys := (fsys e1)(canonical e dest \<mapsto> File bs)\<rparr>"
  have "copy_wallet e1 t dest
        = (e2, Inr [''The new wallet.dat file with the password removed was saved to: '' @ dest])"
    using s assms(2,3,10,12,13) by (simp add: copy_wallet_def k Let_def e2_def)
  then have "removePassword e t
        = (e2, Inr [''The new wallet.dat file with the password removed was saved to: '' @ dest])"
    using assms(1,4,7,8) c
    by (simp add: removePassword_def fs_exists_def getDesktopPath_def
        assms(5) [symmetric] assms(6) [symmetric])
  moreover have "fsys e2 (canonical e dest) = Some (File bs)"
    "fsys e2 (canonical e (walletPath t)) = Some (File bs)"
    using s(1) assms(13) by (simp_all add: e2_def)
  ultimately show ?thesis by blast
qed

theorem removePassword_copies_nonempty_wallet_witness:
  "\<exists>e'. removePassword (ex_env [1, 2, 3])
            \<lparr>walletPath = ''/w'', dbType = ''SQLite'', hexKey = ''0123456789'',
             removePass = True, dumpKeys = False\<rparr>
          = (e', Inr [''The new wallet.dat file with the password removed was saved to: ''
                      @ ''/home/u/Desktop/wallet.dat''])
        \<and> fsys e' ''/home/u/Desktop/wallet.dat'' = Some (File [1, 2, 3])
        \<and> fsys e' ''/w'' = Some (File [1, 2, 3])"
proof -
  define t where "t = \<lparr>walletPath = ''/w'', dbType = ''SQLite'', hexKey = ''0123456789'',
             removePass = True, dumpKeys = False\<rparr>"
  have w: "walletPath t = ''/w''" by (simp add: t_def)
  have c: "canonical (ex_env [1, 2, 3]) p = p" for p by (simp add: ex_env_def)
  have 1: "fsys (ex_env [1, 2, 3]) (canonical (ex_env [1, 2, 3]) (walletPath t))
           = Some (File [1, 2, 3])"
    unfolding c w by (simp add: ex_env_def)
  have 2: "may_read (ex_env [1, 2, 3]) (walletPath t)" by (simp add: ex_env_def)
  have 3: "[1, 2, 3] \<noteq> ([] :: byte list)" by simp
  have 4: "home (ex_env [1, 2, 3]) = Some ''/home/u''" by (simp add: ex_env_def)
  have 5: "''/home/u/Desktop'' = path_append ''/home/u'' ''Desktop''"
    by (simp add: path_append_def)
  have 6: "''/home/u/Desktop/wallet.dat'' = path_append ''/home/u/Desktop'' ''wallet.dat''"
    by (simp add: path_append_def)
  have 7: "stat_error (ex_env [1, 2, 3]) (walletPath t) = None"
    "stat_error (ex_env [1, 2, 3]) ''/home/u/Desktop'' = None"
    by (simp_all add: ex_env_def)
  have 8: "fsys (ex_env [1, 2, 3]) (canonical (ex_env [1, 2, 3]) ''/home/u/Desktop'') \<noteq> None
           \<or> mkdir_error (ex_env [1, 2, 3]) ''/home/u/Desktop'' = None"
    by (simp add: ex_env_def)
  have 9: "may_write (ex_env [1, 2, 3]) ''/home/u/Desktop/wallet.dat''"
    "write_limit (ex_env [1, 2, 3]) = None"
    by (simp_all add: ex_env_def)
  have 10: "fsys (ex_env [1, 2, 3]) (canonical (ex_env [1, 2, 3]) ''/home/u/Desktop/wallet.dat'')
            \<noteq> Some Dir"
    unfolding c by (simp add: ex_env_def)
  have 11: "canonical (ex_env [1, 2, 3]) (walletPath t)
            \<noteq> canonical (ex_env [1, 2, 3]) ''/home/u/Desktop/wallet.dat''"
    "canonical (ex_env [1, 2, 3]) ''/home/u/Desktop''
     \<noteq> canonical (ex_env [1, 2, 3]) ''/home/u/Desktop/wallet.dat''"
    unfolding c w by simp_all
  from removePassword_copies_nonempty_wallet
         [OF 1 2 3 4 5 6 7 8 9(1) 10 9(2) 11]
  have "\<exists>e'. removePassword (ex_env [1, 2, 3]) t
          = (e', Inr [''The new wallet.dat file with the password removed was saved to: ''
                      @ ''/home/u/Desktop/wallet.dat''])
        \<and> fsys e' ''/home/u/Desktop/wallet.dat'' = Some (File [1, 2, 3])
        \<and> fsys e' ''/w'' = Some (File [1, 2, 3])"
    unfolding c w .
  then show ?thesis unfolding t_def .
qed

text \<open>
  When the source is the destination file itself, here under another spelling of its
  path, opening the destination empties the wallet before a byte of it is read: the run
  fails and the wallet is left with no bytes.
\<close>

theorem removePassword_onto_itself_empties_wallet:
  "canonical ex_env_desktop ''/home/u/./Desktop/wallet.dat'' = ''/home/u/Desktop/wallet.dat''
   \<and> fsys ex_env_desktop ''/home/u/Desktop/wallet.dat'' = Some (File [1, 2, 3])
   \<and> snd (removePassword ex_env_desktop
          \<lparr>walletPath = ''/home/u/./Desktop/wallet.dat'', dbType = ''SQLite'',
           hexKey = ''0123456789'', removePass = True, dumpKeys = False\<rparr>)
     = Inl ''Failed to process wallet file: Error occurred while writing destination file''
   \<and> fsys (fst (removePassword ex_env_desktop
          \<lparr>walletPath = ''/home/u/./Desktop/wallet.dat'', dbType = ''SQLite'',
           hexKey = ''0123456789'', removePass = True, dumpKeys = False\<rparr>))
        ''/home/u/Desktop/wallet.dat'' = Some (File [])"
  by (simp add: removePassword_def copy_wallet_def getDesktopPath_def fs_exists_def
      path_append_def ex_env_desktop_def Let_def)

lemma ex_early_mkey: "occurrences ''mkey'' ex_wallet_early = [0]"
  unfolding occurrences_scan by code_simp

lemma ex_early_ckey: "occurrences ''ckey'' ex_wallet_early = []"
  unfolding occurrences_scan by code_simp

lemma ex_early_window:
  "tohex (mkey_window ex_wallet_early (u_mkey_data ex_uninit) 0) 48
   = ''00000000'' @ concat (replicate 44 ''bb'')"
  by code_simp

text \<open>
  A tag too close to the start of the file. With \<open>mkey\<close> at offset 0 the seek to \<open>-72\<close>
  fails, the 48-byte read starts after the tag and gets the 4 bytes that are left, and the
  line shows them followed by 44 bytes of the buffer as \<^verbatim>\<open>malloc\<close> returned it (here
  \<open>0xbb\<close>).
\<close>

theorem early_master_key_prints_uninitialised_bytes:
  "dumpAllKeys (ex_env ex_wallet_early) ex_uninit ex_dump
   = Some (Inr [''Mkey_encrypted: '' @ ''00000000'' @ concat (replicate 44 ''bb''), []])"
proof -
  have l: "length ex_wallet_early \<le> 2147483647" by (simp add: ex_lengths)
  from dump_lines [OF ex_full_file l ex_early_mkey, of ex_uninit] obtain xs
    where d: "dumpAllKeys (ex_env ex_wallet_early) ex_uninit ex_dump
           = Some (Inr ([''Mkey_encrypted: ''
                         @ tohex (mkey_window ex_wallet_early (u_mkey_data ex_uninit) 0) 48, []]
                        @ map (\<lambda>x. ''encrypted ckey: '' @ x) xs))"
      and n: "length xs = length (occurrences ''ckey'' ex_wallet_early)"
    by blast
  from n have "xs = []" by (simp add: ex_early_ckey)
  with d show ?thesis by (simp only: ex_early_window list.map append_Nil2)
qed

end
